theory Spec2Isabelle
  imports Main "HOL-Library.Char_ord" "HOL-Library.List_Lexorder"
begin

section \<open>Strings and characters\<close>

text \<open>
  JavaScript strings are modelled as \<^typ>\<open>string\<close>, a list of 8-bit characters. The model is
  exact on ASCII text; a character beyond ASCII appears as its UTF-8 bytes (so the three
  Unicode dashes of \<open>windashPermute\<close> are three bytes each), case folding touches the
  letters A-Z and a-z only, and white space is the ASCII white space.
\<close>

definition isDigit :: "char \<Rightarrow> bool" where
  "isDigit c = (let n = (of_char c :: nat) in 48 \<le> n \<and> n \<le> 57)"

definition isUpper :: "char \<Rightarrow> bool" where
  "isUpper c = (let n = (of_char c :: nat) in 65 \<le> n \<and> n \<le> 90)"

definition isLower :: "char \<Rightarrow> bool" where
  "isLower c = (let n = (of_char c :: nat) in 97 \<le> n \<and> n \<le> 122)"

definition isAlnum :: "char \<Rightarrow> bool" where
  "isAlnum c = (isDigit c \<or> isUpper c \<or> isLower c)"

text \<open>The word characters of the regular-expression assertions \<open>\b\<close> and \<open>\B\<close>.\<close>

definition isWordChar :: "char \<Rightarrow> bool" where
  "isWordChar c = (isAlnum c \<or> c = CHR ''_'')"

text \<open>White space as \<open>trimStart\<close> and the class \<open>\s\<close> see it (ASCII part).\<close>

definition isSpace :: "char \<Rightarrow> bool" where
  "isSpace c = (let n = (of_char c :: nat) in n = 32 \<or> (9 \<le> n \<and> n \<le> 13))"

definition lowerChar :: "char \<Rightarrow> char" where
  "lowerChar c = (if isUpper c then char_of ((of_char c :: nat) + 32) else c)"

definition upperChar :: "char \<Rightarrow> char" where
  "upperChar c = (if isLower c then char_of ((of_char c :: nat) - 32) else c)"

definition toLowerCase :: "string \<Rightarrow> string" where
  "toLowerCase s = map lowerChar s"

text \<open>\<open>String.prototype.substring(a, b)\<close>: both indices are clamped to the length and
  swapped when out of order.\<close>

definition substring :: "string \<Rightarrow> nat \<Rightarrow> nat \<Rightarrow> string" where
  "substring s a b =
     (let a' = min a (length s); b' = min b (length s)
      in take (max a' b' - min a' b') (drop (min a' b') s))"

definition startsWith :: "string \<Rightarrow> string \<Rightarrow> bool" where
  "startsWith s p = (take (length p) s = p)"

definition endsWith :: "string \<Rightarrow> string \<Rightarrow> bool" where
  "endsWith s p = (length p \<le> length s \<and> drop (length s - length p) s = p)"

text \<open>\<open>xs.join(sep)\<close>.\<close>

fun join :: "'a list \<Rightarrow> 'a list list \<Rightarrow> 'a list" where
  "join sep [] = []"
| "join sep [x] = x"
| "join sep (x # y # ys) = x @ sep @ join sep (y # ys)"

text \<open>\<open>s.split(c)\<close> for a one-character separator: always at least one part.\<close>

fun splitOn :: "(char \<Rightarrow> bool) \<Rightarrow> string \<Rightarrow> string list" where
  "splitOn P [] = [[]]"
| "splitOn P (c # cs) =
     (if P c then [] # splitOn P cs
      else (case splitOn P cs of [] \<Rightarrow> [[c]] | p # ps \<Rightarrow> (c # p) # ps))"

text \<open>\<open>s.replace(/ab/g, r)\<close> for a two-character literal \<open>ab\<close>: every occurrence, left to
  right, without overlap.\<close>

fun replaceAll2 :: "char \<Rightarrow> char \<Rightarrow> string \<Rightarrow> string \<Rightarrow> string" where
  "replaceAll2 a b r (x # y # zs) =
     (if x = a \<and> y = b then r @ replaceAll2 a b r zs else x # replaceAll2 a b r (y # zs))"
| "replaceAll2 a b r zs = zs"

text \<open>\<open>s.replace(/c/g, r)\<close> for a one-character literal.\<close>

definition replaceAll1 :: "char \<Rightarrow> string \<Rightarrow> string \<Rightarrow> string" where
  "replaceAll1 a r s = concat (map (\<lambda>x. if x = a then r else [x]) s)"

section \<open>The regular-expression engine\<close>

text \<open>
  \<open>RegExp\<close> is a built-in of the language, not code of the repository. It is modelled on the
  fragment the pattern compiler produces and the properties below need: literal characters, escaped
  punctuation, \<open>.\<close>, the quantifiers \<open>*\<close>, \<open>+\<close>, \<open>?\<close> (greedy or lazy: \<open>test\<close> does not
  tell them apart), groups \<open>(...)\<close> and \<open>(?:...)\<close>, alternation and the anchors \<open>^\<close> and \<open>$\<close>.
  A source is compiled in two steps, tokens and then a stack of open groups; the
  constructor's SyntaxError is the value \<open>None\<close>. Character classes, bounded repetition,
  look-around and the letter and digit escapes are outside the fragment, and the model
  refuses them like a malformed source.
\<close>

datatype rx = Eps | Chr char | Dot | Bol | Eol | Seq rx rx | Alt rx rx | Star rx

datatype rxtok = TChr char | TDot | TStar | TPlus | TQuest | TOpen | TClose | TBar | TBol | TEol

definition rx_plain_tok :: "char \<Rightarrow> rxtok" where
  "rx_plain_tok c =
     (if c = CHR ''.'' then TDot else if c = CHR ''*'' then TStar
      else if c = CHR ''+'' then TPlus else if c = CHR ''?'' then TQuest
      else if c = CHR '')'' then TClose else if c = CHR ''|'' then TBar
      else if c = CHR ''^'' then TBol else if c = CHR ''$'' then TEol
      else TChr c)"

fun rx_lex :: "string \<Rightarrow> rxtok list option" where
  "rx_lex [] = Some []"
| "rx_lex (c # cs) =
     (if c = CHR 0x5C then
        (case cs of
           [] \<Rightarrow> None
         | d # ds \<Rightarrow> if isAlnum d then None else map_option ((#) (TChr d)) (rx_lex ds))
      else if c = CHR ''('' then
        (case cs of
           [] \<Rightarrow> Some [TOpen]
         | d # ds \<Rightarrow>
             if d = CHR ''?'' then
               (case ds of
                  [] \<Rightarrow> None
                | e # es \<Rightarrow> if e = CHR '':'' then map_option ((#) TOpen) (rx_lex es) else None)
             else map_option ((#) TOpen) (rx_lex cs))
      else if c = CHR ''['' \<or> c = CHR ''{'' then None
      else map_option ((#) (rx_plain_tok c)) (rx_lex cs))"

text \<open>What may follow the last term: nothing to repeat, a quantifier, or only the lazy mark.\<close>

datatype qstate = NoRep | Atom | Quant

text \<open>\<open>rx_cat\<close> is a sequence of terms, \<open>rx_alts\<close> a disjunction of alternatives.\<close>

fun rx_cat :: "rx list \<Rightarrow> rx" where
  "rx_cat [] = Eps"
| "rx_cat (t # ts) = Seq t (rx_cat ts)"

fun rx_alts :: "rx list \<Rightarrow> rx" where
  "rx_alts [] = Eps"
| "rx_alts [a] = a"
| "rx_alts (a # b # bs) = Alt a (rx_alts (b # bs))"

text \<open>A frame is an open group: its finished alternatives and the terms of the current
  one, both newest first.\<close>

definition frame_rx :: "rx list \<Rightarrow> rx list \<Rightarrow> rx" where
  "frame_rx as ts = rx_alts (rev (rx_cat (rev ts) # as))"

fun rx_run :: "(rx list \<times> rx list) list \<Rightarrow> rx list \<Rightarrow> rx list \<Rightarrow> qstate \<Rightarrow> rxtok list \<Rightarrow> rx option" where
  "rx_run stk as ts q [] = (if stk = [] then Some (frame_rx as ts) else None)"
| "rx_run stk as ts q (TChr c # r) = rx_run stk as (Chr c # ts) Atom r"
| "rx_run stk as ts q (TDot # r) = rx_run stk as (Dot # ts) Atom r"
| "rx_run stk as ts q (TBol # r) = rx_run stk as (Bol # ts) NoRep r"
| "rx_run stk as ts q (TEol # r) = rx_run stk as (Eol # ts) NoRep r"
| "rx_run stk as ts q (TStar # r) =
     (case ts of
        t # ts' \<Rightarrow> if q = Atom then rx_run stk as (Star t # ts') Quant r else None
      | [] \<Rightarrow> None)"
| "rx_run stk as ts q (TPlus # r) =
     (case ts of
        t # ts' \<Rightarrow> if q = Atom then rx_run stk as (Seq t (Star t) # ts') Quant r else None
      | [] \<Rightarrow> None)"
| "rx_run stk as ts q (TQuest # r) =
     (if q = Quant then rx_run stk as ts NoRep r
      else (case ts of
              t # ts' \<Rightarrow> if q = Atom then rx_run stk as (Alt t Eps # ts') Quant r else None
            | [] \<Rightarrow> None))"
| "rx_run stk as ts q (TOpen # r) = rx_run ((as, ts) # stk) [] [] NoRep r"
| "rx_run stk as ts q (TClose # r) =
     (case stk of
        [] \<Rightarrow> None
      | (as', ts') # stk' \<Rightarrow> rx_run stk' as' (frame_rx as ts # ts') Atom r)"
| "rx_run stk as ts q (TBar # r) = rx_run stk (rx_cat (rev ts) # as) [] NoRep r"

definition RegExp :: "string \<Rightarrow> rx option" where
  "RegExp src = (case rx_lex src of None \<Rightarrow> None | Some toks \<Rightarrow> rx_run [] [] [] NoRep toks)"

text \<open>
  Matching. A position is the number of characters before it and the text after it;
  \<open>rx_step\<close> lists the positions where a match of the expression that starts at the given
  position may end. The flag is \<open>ignoreCase\<close>. \<open>.\<close> matches no line terminator, \<open>^\<close> and
  \<open>$\<close> match at the two ends of the text only (no \<open>multiline\<close> flag is ever set).
\<close>

definition chr_eq :: "bool \<Rightarrow> char \<Rightarrow> char \<Rightarrow> bool" where
  "chr_eq ic a b = (if ic then upperChar a = upperChar b else a = b)"

definition isLineTerminator :: "char \<Rightarrow> bool" where
  "isLineTerminator c = (c = CHR 0x0A \<or> c = CHR 0x0D)"

fun star_iter :: "(nat \<times> string \<Rightarrow> (nat \<times> string) list) \<Rightarrow> nat \<Rightarrow> nat \<times> string \<Rightarrow> (nat \<times> string) list" where
  "star_iter f 0 p = [p]"
| "star_iter f (Suc n) p =
     p # concat (map (star_iter f n) (filter (\<lambda>q. length (snd q) < length (snd p)) (f p)))"

primrec rx_step :: "bool \<Rightarrow> rx \<Rightarrow> nat \<times> string \<Rightarrow> (nat \<times> string) list" where
  "rx_step ic Eps = (\<lambda>p. [p])"
| "rx_step ic (Chr c) =
     (\<lambda>p. case snd p of [] \<Rightarrow> [] | x # xs \<Rightarrow> if chr_eq ic x c then [(Suc (fst p), xs)] else [])"
| "rx_step ic Dot =
     (\<lambda>p. case snd p of [] \<Rightarrow> [] | x # xs \<Rightarrow> if isLineTerminator x then [] else [(Suc (fst p), xs)])"
| "rx_step ic Bol = (\<lambda>p. if fst p = 0 then [p] else [])"
| "rx_step ic Eol = (\<lambda>p. if snd p = [] then [p] else [])"
| "rx_step ic (Seq a b) = (\<lambda>p. concat (map (rx_step ic b) (rx_step ic a p)))"
| "rx_step ic (Alt a b) = (\<lambda>p. rx_step ic a p @ rx_step ic b p)"
| "rx_step ic (Star a) = (\<lambda>p. star_iter (rx_step ic a) (length (snd p)) p)"

text \<open>\<open>regex.test(s)\<close> for a regex without the global or sticky flag: a match may start
  anywhere.\<close>

definition rx_test :: "bool \<Rightarrow> rx \<Rightarrow> string \<Rightarrow> bool" where
  "rx_test ic r s = list_ex (\<lambda>i. rx_step ic r (i, drop i s) \<noteq> []) [0..<Suc (length s)]"

section \<open>The IP-address capability\<close>

text \<open>
  \<open>Address4\<close> and \<open>Address6\<close> come from the library \<open>ip-address\<close>, which is not code of the
  repository. They are modelled on the standard text forms: four decimal octets, or eight
  groups of up to four hexadecimal digits with at most one \<open>::\<close>, each with an optional
  \<open>/prefix\<close>. A constructor that throws is \<open>None\<close>. An address is its number and its prefix
  length (the full width when none is written).
\<close>

definition decVal :: "string \<Rightarrow> int" where
  "decVal s = foldl (\<lambda>n c. 10 * n + ((of_char c :: int) - 48)) 0 s"

definition hexDigit :: "char \<Rightarrow> int option" where
  "hexDigit c =
     (let n = (of_char c :: int)
      in if 48 \<le> n \<and> n \<le> 57 then Some (n - 48)
         else if 97 \<le> n \<and> n \<le> 102 then Some (n - 87)
         else if 65 \<le> n \<and> n \<le> 70 then Some (n - 55)
         else None)"

definition hexGroup :: "string \<Rightarrow> int option" where
  "hexGroup s =
     (if s = [] \<or> 4 < length s \<or> list_ex (\<lambda>c. hexDigit c = None) s then None
      else Some (foldl (\<lambda>n c. 16 * n + the (hexDigit c)) 0 s))"

definition octet :: "string \<Rightarrow> int option" where
  "octet s =
     (if s = [] \<or> 3 < length s \<or> list_ex (\<lambda>c. \<not> isDigit c) s \<or> 255 < decVal s then None
      else Some (decVal s))"

text \<open>The text before the \<open>/\<close> and the prefix length after it.\<close>

definition splitPrefix :: "nat \<Rightarrow> string \<Rightarrow> (string \<times> nat) option" where
  "splitPrefix bits s =
     (case splitOn (\<lambda>c. c = CHR ''/'') s of
        [a] \<Rightarrow> Some (a, bits)
      | [a, p] \<Rightarrow>
          if p = [] \<or> 3 < length p \<or> list_ex (\<lambda>c. \<not> isDigit c) p \<or> int bits < decVal p then None
          else Some (a, nat (decVal p))
      | _ \<Rightarrow> None)"

definition Address4 :: "string \<Rightarrow> (int \<times> nat) option" where
  "Address4 s =
     (case splitPrefix 32 s of
        None \<Rightarrow> None
      | Some (a, m) \<Rightarrow>
          (let os = map octet (splitOn (\<lambda>c. c = CHR ''.'') a)
           in if length os \<noteq> 4 \<or> list_ex (\<lambda>x. x = None) os then None
              else Some (foldl (\<lambda>n x. 256 * n + the x) 0 os, m)))"

text \<open>The first \<open>::\<close> of an IPv6 text: what is before it and what is after it.\<close>

fun splitElision :: "string \<Rightarrow> (string \<times> string) option" where
  "splitElision (x # y # zs) =
     (if x = CHR '':'' \<and> y = CHR '':'' then Some ([], zs)
      else map_option (\<lambda>(l, r). (x # l, r)) (splitElision (y # zs)))"
| "splitElision zs = None"

definition hexGroups :: "string \<Rightarrow> int option list" where
  "hexGroups s = (if s = [] then [] else map hexGroup (splitOn (\<lambda>c. c = CHR '':'') s))"

definition Address6 :: "string \<Rightarrow> (int \<times> nat) option" where
  "Address6 s =
     (case splitPrefix 128 s of
        None \<Rightarrow> None
      | Some (a, m) \<Rightarrow>
          (case splitElision a of
             None \<Rightarrow>
               (let gs = map hexGroup (splitOn (\<lambda>c. c = CHR '':'') a)
                in if length gs \<noteq> 8 \<or> list_ex (\<lambda>x. x = None) gs then None
                   else Some (foldl (\<lambda>n x. 65536 * n + the x) 0 gs, m))
           | Some (l, r) \<Rightarrow>
               (let gl = hexGroups l; gr = hexGroups r
                in if 8 \<le> length gl + length gr \<or> list_ex (\<lambda>x. x = None) (gl @ gr) then None
                   else Some (foldl (\<lambda>n x. 65536 * n + the x) 0
                                (gl @ replicate (8 - (length gl + length gr)) (Some 0) @ gr), m))))"

text \<open>\<open>a.isInSubnet(c)\<close>: the address's own prefix is at least as long as the network's and
  both agree on the network's prefix bits.\<close>

definition isInSubnet :: "nat \<Rightarrow> int \<times> nat \<Rightarrow> int \<times> nat \<Rightarrow> bool" where
  "isInSubnet bits a c =
     (if snd a < snd c then False
      else fst a div 2 ^ (bits - snd c) = fst c div 2 ^ (bits - snd c))"

section \<open>Pattern transformations (eval.ts)\<close>

definition escapeRegex :: "string \<Rightarrow> string" where
  "escapeRegex s =
     concat (map (\<lambda>c. if c \<in> set (''.*+?^${}()|[]'' @ [CHR 0x5C]) then [CHR 0x5C, c] else [c]) s)"

text \<open>The first replacement of \<open>/\B[-/]\b/\<close>: a dash or slash that follows no word character
  and is followed by one. \<open>prev\<close> is the character before the text, if any.\<close>

fun windashReplace :: "string \<Rightarrow> char option \<Rightarrow> string \<Rightarrow> string" where
  "windashReplace dash prev [] = []"
| "windashReplace dash prev (c # cs) =
     (if (c = CHR ''-'' \<or> c = CHR ''/'')
         \<and> (case prev of None \<Rightarrow> True | Some p \<Rightarrow> \<not> isWordChar p)
         \<and> (case cs of [] \<Rightarrow> False | d # ds \<Rightarrow> isWordChar d)
      then dash @ cs
      else c # windashReplace dash (Some c) cs)"

definition windowsParamDashes :: "string list" where
  "windowsParamDashes =
     [''-'', ''/'', [CHR 0xE2, CHR 0x80, CHR 0x93], [CHR 0xE2, CHR 0x80, CHR 0x94],
      [CHR 0xE2, CHR 0x80, CHR 0x95]]"

definition windashPermute :: "string \<Rightarrow> string list" where
  "windashPermute input = map (\<lambda>dash. windashReplace dash None input) windowsParamDashes"

definition b64chr :: "nat \<Rightarrow> char" where
  "b64chr n = (''ABCDEFGHIJKLMNOPQRSTUVWXYZabcdefghijklmnopqrstuvwxyz0123456789+/'') ! n"

fun b64enc :: "nat list \<Rightarrow> string" where
  "b64enc [] = []"
| "b64enc [a] = [b64chr (a div 4), b64chr (a mod 4 * 16), CHR ''='', CHR ''='']"
| "b64enc [a, b] =
     [b64chr (a div 4), b64chr (a mod 4 * 16 + b div 16), b64chr (b mod 16 * 4), CHR ''='']"
| "b64enc (a # b # c # r) =
     [b64chr (a div 4), b64chr (a mod 4 * 16 + b div 16), b64chr (b mod 16 * 4 + c div 64),
      b64chr (c mod 64)] @ b64enc r"

text \<open>\<open>Buffer.from(s).toString('base64')\<close>.\<close>

definition toBase64 :: "string \<Rightarrow> string" where
  "toBase64 s = b64enc (map of_char s)"

definition base64Permute :: "string \<Rightarrow> string list" where
  "base64Permute input =
     (if length input = 0 then []
      else map (\<lambda>i.
             let encoded = b64enc (replicate i 32 @ map of_char input);
                 startOffset = [0, 2, 3] ! i;
                 endOffset = [0, 3, 2] ! ((length input + i) mod 3)
             in substring encoded startOffset (length encoded - endOffset)) [0, 1, 2])"

section \<open>Errors (errors.ts)\<close>

text \<open>Whatever is thrown is a value: the repository's two error classes, the plain
  \<open>Error\<close>, and the SyntaxError and TypeError of the language itself. Messages are
  those of the source, with two exceptions: the messages about \<open>related\<close> leave the rule
  title out, and where the source passes on the message of the regex engine the model has
  a fixed text; a SyntaxError carries the regex source that did not compile.\<close>

datatype error =
    SigmaError string
  | SigmaAggregationNotSupportedError
  | Error string
  | SyntaxError string
  | TypeError

text \<open>A text between quotation marks, as the templates of the messages have it.\<close>

definition quoted :: "string \<Rightarrow> string" where
  "quoted s = CHR 0x22 # s @ [CHR 0x22]"

section \<open>The expression tree and its leaves (types.ts, eval.ts)\<close>

text \<open>The field of a \<open>SearchAtom\<close> is optional: \<open>None\<close> is \<open>undefined\<close>. The memo of
  \<open>_compile\<close> is keyed by the patterns, the modifiers and the field, which are all that
  \<open>_compile\<close> reads, and is written only after a successful compilation: a hit returns what
  recomputing would, so the model recomputes.\<close>

datatype expr =
    NamedExpr string expr
  | NotExpr expr
  | AndExpr "expr list"
  | OrExpr "expr list"
  | SearchAtom "string option" "string list" "string list"

text \<open>The field \<open>fields\<close> of a log entry is \<open>entry_fields\<close> here, an association list in the
  order in which the keys of the object are enumerated.\<close>

record logEntry =
  message :: string
  entry_fields :: "(string \<times> string) list"

text \<open>\<open>MatchOptions\<close>: \<open>None\<close> when the options or their \<open>placeholders\<close> are absent; the
  record of placeholders is an association list.\<close>

type_synonym matchOptions = "(string \<times> string list) list option"

text \<open>\<open>!this.field\<close>: the field is undefined or the empty string.\<close>

definition noField :: "string option \<Rightarrow> bool" where
  "noField f = (case f of None \<Rightarrow> True | Some n \<Rightarrow> n = [])"

datatype patternType = Glob | Re | Cidr

text \<open>The loop of \<open>validate\<close> over the modifiers; \<open>i\<close> is the loop index.\<close>

fun validateModifiers ::
  "string list \<Rightarrow> nat \<Rightarrow> string list \<Rightarrow> patternType \<Rightarrow> bool \<Rightarrow> string + (patternType \<times> bool)" where
  "validateModifiers ps i [] pt ex = Inr (pt, ex)"
| "validateModifiers ps i (m # ms) pt ex =
     (if m = ''re'' then validateModifiers ps (Suc i) ms Re ex
      else if m = ''cidr'' then validateModifiers ps (Suc i) ms Cidr ex
      else if m \<in> set [''contains'', ''all'', ''startswith'', ''endswith'', ''windash'',
                         ''base64'', ''base64offset'']
        then validateModifiers ps (Suc i) ms pt ex
      else if m = ''expand'' then
        (if i \<noteq> 0 then Inl ''expand can only be the first modifier''
         else (case find (\<lambda>p. \<not> startsWith p ''%'' \<or> \<not> endsWith p ''%'') ps of
                 Some p \<Rightarrow> Inl (''placeholder '' @ quoted p @ '' must start and end with ''
                             @ [CHR 0x27, CHR ''%'', CHR 0x27])
               | None \<Rightarrow> validateModifiers ps (Suc i) ms pt True))
      else Inl (''unknown modifier '' @ quoted m))"

text \<open>\<open>validate\<close> returns an \<open>Error\<close> or \<open>null\<close>: here the message, or \<open>None\<close>.\<close>

definition validate :: "string list \<Rightarrow> string list \<Rightarrow> string option" where
  "validate mods ps =
     (if length ps = 0 then Some ''no patterns''
      else (case validateModifiers ps 0 mods Glob False of
              Inl msg \<Rightarrow> Some msg
            | Inr (pt, ex) \<Rightarrow>
                if \<not> ex then
                  (if pt = Re then
                     (case find (\<lambda>pat. RegExp pat = None) ps of
                        Some pat \<Rightarrow> Some (''pattern '' @ pat @ '': invalid regular expression'')
                      | None \<Rightarrow> None)
                   else if pt = Cidr then
                     (case find (\<lambda>pat. Address4 pat = None \<and> Address6 pat = None) ps of
                        Some pat \<Rightarrow> Some (''pattern '' @ pat @ '': not a valid CIDR'')
                      | None \<Rightarrow> None)
                   else None)
                else None))"

text \<open>\<open>_expandPatterns\<close>: under \<open>expand\<close> every placeholder gives way to the values the
  table has for its name, none when the table or the name is missing.\<close>

definition expandPatterns :: "string list \<Rightarrow> string list \<Rightarrow> matchOptions \<Rightarrow> string list" where
  "expandPatterns mods ps placeholders =
     (if ''expand'' \<in> set mods then
        concat (map (\<lambda>placeholder.
                  let name = substring placeholder 1 (length placeholder - 1)
                  in case placeholders of
                       None \<Rightarrow> []
                     | Some tbl \<Rightarrow> (case map_of tbl name of None \<Rightarrow> [] | Some vs \<Rightarrow> vs)) ps)
      else ps)"

text \<open>\<open>processPattern\<close>, the closure of \<open>_compile\<close> that turns one pattern into the source
  of a regex; it reads the field and the modifiers of the atom.\<close>

definition processPattern :: "string option \<Rightarrow> string list \<Rightarrow> string \<Rightarrow> string" where
  "processPattern field mods pattern =
     (if ''re'' \<in> set mods then ''(?:'' @ pattern @ '')''
      else if ''base64offset'' \<in> set mods then ''(?:'' @ join ''|'' (base64Permute pattern) @ '')''
      else
        (let p0 = (if ''base64'' \<in> set mods then toBase64 pattern else pattern);
             p = (if ''windash'' \<in> set mods
                  then ''(?:'' @ join ''|'' (map escapeRegex (windashPermute p0)) @ '')''
                  else replaceAll2 (CHR 0x5C) (CHR ''?'') ''.''
                         (replaceAll2 (CHR 0x5C) (CHR ''*'') ''.*'' (escapeRegex p0)));
             contains = (''contains'' \<in> set mods);
             prefix = (if noField field \<or> contains \<or> ''endswith'' \<in> set mods then [] else ''^'');
             suffix = (if noField field \<or> contains \<or> ''startswith'' \<in> set mods then [] else ''$'')
         in prefix @ ''(?:'' @ p @ '')'' @ suffix))"

text \<open>The loop that compiles one regex per pattern and stops at the first that throws.\<close>

fun compileEach :: "string list \<Rightarrow> error + rx list" where
  "compileEach [] = Inr []"
| "compileEach (src # srcs) =
     (case RegExp src of
        None \<Rightarrow> Inl (SyntaxError src)
      | Some r \<Rightarrow> (case compileEach srcs of Inl e \<Rightarrow> Inl e | Inr rs \<Rightarrow> Inr (r # rs)))"

text \<open>The networks of the \<open>cidr\<close> branch: each pattern as IPv4 if it parses so, else as
  IPv6 if it parses so, else dropped. \<open>Inl\<close> is an \<open>Address4\<close>, \<open>Inr\<close> an \<open>Address6\<close>.\<close>

definition cidrMatchers :: "string list \<Rightarrow> ((int \<times> nat) + (int \<times> nat)) list" where
  "cidrMatchers patterns =
     concat (map (\<lambda>p. case Address4 p of
                         Some c \<Rightarrow> [Inl c]
                       | None \<Rightarrow> (case Address6 p of Some c \<Rightarrow> [Inr c] | None \<Rightarrow> [])) patterns)"

definition cidrMatches :: "((int \<times> nat) + (int \<times> nat)) list \<Rightarrow> string \<Rightarrow> bool" where
  "cidrMatches ms s =
     (case Address4 s of
        Some addr \<Rightarrow> list_ex (\<lambda>c. case c of Inl c4 \<Rightarrow> isInSubnet 32 addr c4 | Inr c6 \<Rightarrow> False) ms
      | None \<Rightarrow>
          (case Address6 s of
             Some addr \<Rightarrow> list_ex (\<lambda>c. case c of Inl c4 \<Rightarrow> False | Inr c6 \<Rightarrow> isInSubnet 128 addr c6) ms
           | None \<Rightarrow> False))"

text \<open>\<open>_compile\<close>: the compiled matcher as a predicate on the candidate text, or what the
  construction of a regex throws.\<close>

definition compile :: "string option \<Rightarrow> string list \<Rightarrow> string list \<Rightarrow> error + (string \<Rightarrow> bool)" where
  "compile field mods patterns =
     (if ''cidr'' \<in> set mods then Inr (cidrMatches (cidrMatchers patterns))
      else if ''all'' \<in> set mods then
        (case compileEach (map (processPattern field mods) patterns) of
           Inl e \<Rightarrow> Inl e
         | Inr regexes \<Rightarrow> Inr (\<lambda>s. list_all (\<lambda>r. rx_test True r s) regexes))
      else
        (let combined = join ''|'' (map (processPattern field mods) patterns)
         in case RegExp combined of
              None \<Rightarrow> Inl (SyntaxError combined)
            | Some r \<Rightarrow> Inr (rx_test True r)))"

text \<open>The field lookup of \<open>exprMatches\<close>: the value of the first key that equals the field
  name up to case, the empty string when there is none.\<close>

definition fieldContent :: "string option \<Rightarrow> logEntry \<Rightarrow> string" where
  "fieldContent field entry =
     (if noField field then message entry
      else (case find (\<lambda>kv. toLowerCase (fst kv) = toLowerCase (the field)) (entry_fields entry) of
              Some kv \<Rightarrow> snd kv
            | None \<Rightarrow> []))"

definition atomMatches ::
  "logEntry \<Rightarrow> matchOptions \<Rightarrow> string option \<Rightarrow> string list \<Rightarrow> string list \<Rightarrow> error + bool" where
  "atomMatches entry opts field mods ps =
     (if validate mods ps \<noteq> None then Inr False
      else
        (let content = fieldContent field entry;
             patterns = expandPatterns mods ps opts
         in if length patterns = 0 then Inr False
            else (case compile field mods patterns of
                    Inl e \<Rightarrow> Inl e
                  | Inr matches \<Rightarrow> Inr (matches content))))"

text \<open>\<open>exprMatches\<close> on every node; \<open>Inl\<close> is an exception that leaves the evaluation. The
  loops of \<open>AndExpr\<close> and \<open>OrExpr\<close> stop at the first child that decides.\<close>

fun exprMatches :: "logEntry \<Rightarrow> matchOptions \<Rightarrow> expr \<Rightarrow> error + bool"
  and andMatches :: "logEntry \<Rightarrow> matchOptions \<Rightarrow> expr list \<Rightarrow> error + bool"
  and orMatches :: "logEntry \<Rightarrow> matchOptions \<Rightarrow> expr list \<Rightarrow> error + bool" where
  "exprMatches entry opts (NamedExpr name x) = exprMatches entry opts x"
| "exprMatches entry opts (NotExpr x) =
     (case exprMatches entry opts x of Inl e \<Rightarrow> Inl e | Inr b \<Rightarrow> Inr (\<not> b))"
| "exprMatches entry opts (AndExpr xs) = andMatches entry opts xs"
| "exprMatches entry opts (OrExpr xs) = orMatches entry opts xs"
| "exprMatches entry opts (SearchAtom field mods ps) = atomMatches entry opts field mods ps"
| "andMatches entry opts [] = Inr True"
| "andMatches entry opts (x # xs) =
     (case exprMatches entry opts x of
        Inl e \<Rightarrow> Inl e
      | Inr b \<Rightarrow> if \<not> b then Inr False else andMatches entry opts xs)"
| "orMatches entry opts [] = Inr False"
| "orMatches entry opts (x # xs) =
     (case exprMatches entry opts x of
        Inl e \<Rightarrow> Inl e
      | Inr b \<Rightarrow> if b then Inr True else orMatches entry opts xs)"

section \<open>Decoded YAML values\<close>

text \<open>
  \<open>YAML.parse\<close> is an external library; the model starts from the value it returns. A
  mapping is an association list in the order in which the keys of the object are
  enumerated, and a key that is absent reads as \<open>undefined\<close>, here \<open>None\<close>. Numbers are the
  integers (a fractional number has no model here).
\<close>

datatype jsval =
    JNull
  | JBool bool
  | JNum int
  | JStr string
  | JArr "jsval list"
  | JObj "(string \<times> jsval) list"

text \<open>Truthiness, as \<open>if (v)\<close> and \<open>!v\<close> see a value.\<close>

fun truthy :: "jsval option \<Rightarrow> bool" where
  "truthy None = False"
| "truthy (Some JNull) = False"
| "truthy (Some (JBool b)) = b"
| "truthy (Some (JNum n)) = (n \<noteq> 0)"
| "truthy (Some (JStr s)) = (s \<noteq> [])"
| "truthy (Some (JArr xs)) = True"
| "truthy (Some (JObj m)) = True"

text \<open>\<open>v[key]\<close> for the keys the parser reads (none of them is a property of a string, a
  number or an array).\<close>

fun getProp :: "jsval \<Rightarrow> string \<Rightarrow> jsval option" where
  "getProp (JObj m) key = map_of m key"
| "getProp v key = None"

fun showNat :: "nat \<Rightarrow> string" where
  "showNat n =
     (if n < 10 then [char_of (48 + n)] else showNat (n div 10) @ [char_of (48 + n mod 10)])"

text \<open>\<open>String(v)\<close> on a scalar.\<close>

fun String :: "jsval \<Rightarrow> string" where
  "String (JStr s) = s"
| "String (JNum n) = (if n < 0 then CHR ''-'' # showNat (nat (- n)) else showNat (nat n))"
| "String (JBool b) = (if b then ''true'' else ''false'')"
| "String v = []"

fun isScalar :: "jsval \<Rightarrow> bool" where
  "isScalar (JStr s) = True"
| "isScalar (JNum n) = True"
| "isScalar (JBool b) = True"
| "isScalar v = False"

fun isString :: "jsval \<Rightarrow> bool" where
  "isString (JStr s) = True"
| "isString v = False"

text \<open>\<open>listOfStrings\<close> (utils.ts).\<close>

fun listOfStrings :: "jsval option \<Rightarrow> string list" where
  "listOfStrings None = []"
| "listOfStrings (Some JNull) = []"
| "listOfStrings (Some (JStr s)) = [s]"
| "listOfStrings (Some (JArr xs)) = (if list_all isString xs then map String xs else [])"
| "listOfStrings (Some v) = []"

section \<open>The detection builder (the parser, listed with date.ts)\<close>

text \<open>The pattern list of one key of a search map, \<open>None\<close> for an unsupported value.\<close>

fun searchPatterns :: "jsval \<Rightarrow> string list option" where
  "searchPatterns (JStr s) = Some [s]"
| "searchPatterns (JNum n) = Some [String (JNum n)]"
| "searchPatterns (JBool b) = Some [String (JBool b)]"
| "searchPatterns (JArr vs) = (if list_all isScalar vs then Some (map String vs) else None)"
| "searchPatterns v = None"

text \<open>The loop of \<open>parseSearchMap\<close> over the keys: one validated atom per key, the first
  error ends it.\<close>

fun searchMapAtoms :: "(string \<times> jsval) list \<Rightarrow> error + expr list" where
  "searchMapAtoms [] = Inr []"
| "searchMapAtoms ((key, v) # rest) =
     (let parts = splitOn (\<lambda>c. c = CHR ''|'') key;
          field = hd parts;
          modifiers = tl parts
      in case searchPatterns v of
           None \<Rightarrow> Inl (SigmaError (key @ '': unsupported value''))
         | Some patterns \<Rightarrow>
             (case validate modifiers patterns of
                Some msg \<Rightarrow> Inl (SigmaError (key @ '': '' @ msg))
              | None \<Rightarrow>
                  (case searchMapAtoms rest of
                     Inl e \<Rightarrow> Inl e
                   | Inr atoms \<Rightarrow> Inr (SearchAtom (Some field) modifiers patterns # atoms))))"

definition parseSearchMap :: "(string \<times> jsval) list \<Rightarrow> error + expr" where
  "parseSearchMap node =
     (case searchMapAtoms node of
        Inl e \<Rightarrow> Inl e
      | Inr [] \<Rightarrow> Inl (SigmaError ''empty map'')
      | Inr [a] \<Rightarrow> Inr a
      | Inr (a # b # cs) \<Rightarrow> Inr (AndExpr (a # b # cs)))"

text \<open>The \<open>map\<close> over the elements of a list value.\<close>

fun listElements :: "string \<Rightarrow> jsval list \<Rightarrow> error + expr list" where
  "listElements ident [] = Inr []"
| "listElements ident (elem # elems) =
     (case (case elem of
              JStr s \<Rightarrow> Inr (SearchAtom None [] [s])
            | JObj m \<Rightarrow> parseSearchMap m
            | _ \<Rightarrow> Inl (SigmaError (''search identifier '' @ quoted ident @ '': unsupported list value''))) of
        Inl e \<Rightarrow> Inl e
      | Inr x \<Rightarrow> (case listElements ident elems of Inl e \<Rightarrow> Inl e | Inr xs \<Rightarrow> Inr (x # xs)))"

text \<open>\<open>e instanceof SearchAtom && !e.field && e.modifiers.length === 0\<close>, and the patterns
  of an atom.\<close>

fun isPlainAtom :: "expr \<Rightarrow> bool" where
  "isPlainAtom (SearchAtom field mods ps) = (noField field \<and> length mods = 0)"
| "isPlainAtom e = False"

fun atomPatterns :: "expr \<Rightarrow> string list" where
  "atomPatterns (SearchAtom field mods ps) = ps"
| "atomPatterns e = []"

text \<open>The body of the loop of \<open>parseDetection\<close> over the identifiers: the expression of one
  identifier from its value (\<open>None\<close> is \<open>undefined\<close>).\<close>

fun parseIdentifier :: "string \<Rightarrow> jsval option \<Rightarrow> error + expr" where
  "parseIdentifier ident (Some (JArr elems)) =
     (case listElements ident elems of
        Inl e \<Rightarrow> Inl e
      | Inr exprs \<Rightarrow>
          (case exprs of
             [x] \<Rightarrow> Inr x
           | _ \<Rightarrow>
               if list_all isPlainAtom exprs
               then Inr (SearchAtom None [] (concat (map atomPatterns exprs)))
               else Inr (OrExpr exprs)))"
| "parseIdentifier ident (Some (JObj m)) = parseSearchMap m"
| "parseIdentifier ident (Some (JStr s)) = Inr (SearchAtom None [] [s])"
| "parseIdentifier ident v = Inl (SigmaError (''search identifier '' @ quoted ident @ '': unsupported value''))"

text \<open>The identifier table is a \<open>Map\<close>: an association list in insertion order.\<close>

type_synonym identifiers = "(string \<times> expr) list"

fun buildIdentifiers :: "(string \<times> jsval) list \<Rightarrow> string list \<Rightarrow> error + identifiers" where
  "buildIdentifiers block [] = Inr []"
| "buildIdentifiers block (ident # idents) =
     (case parseIdentifier ident (map_of block ident) of
        Inl e \<Rightarrow> Inl e
      | Inr result \<Rightarrow>
          (case buildIdentifiers block idents of
             Inl e \<Rightarrow> Inl e
           | Inr rest \<Rightarrow> Inr ((ident, NamedExpr ident result) # rest)))"

section \<open>The condition parser\<close>

definition isDelim :: "char \<Rightarrow> bool" where
  "isDelim c = (c = CHR ''('' \<or> c = CHR '')'' \<or> c = CHR ''|'')"

text \<open>\<open>lex\<close> reads one token from the rest of the condition \<open>this.s\<close> and leaves what follows
  it: the token and the new rest. The empty token is the end of the condition.\<close>

definition lex :: "string \<Rightarrow> string \<times> string" where
  "lex s0 =
     (let s = dropWhile isSpace s0
      in case s of
           [] \<Rightarrow> ([], [])
         | c # cs \<Rightarrow>
             if isDelim c then ([c], cs)
             else (takeWhile (\<lambda>x. \<not> (isDelim x \<or> isSpace x)) s,
                   dropWhile (\<lambda>x. \<not> (isDelim x \<or> isSpace x)) s))"

definition operatorPrecedence :: "string \<Rightarrow> int" where
  "operatorPrecedence tok = (if tok = ''and'' then 1 else if tok = ''or'' then 0 else - 1)"

text \<open>The identifiers a quantifier selects: all of them for \<open>them\<close>, else those whose name
  the pattern matches once every \<open>*\<close> is replaced by \<open>.*\<close> and the result is compiled, between
  \<open>^\<close> and \<open>$\<close>, as a regex without flags.\<close>

definition filterIdentifiers :: "identifiers \<Rightarrow> string \<Rightarrow> error + expr list" where
  "filterIdentifiers ids pattern =
     (if pattern = ''them'' then Inr (map snd ids)
      else
        (let src = ''^'' @ replaceAll1 (CHR ''*'') ''.*'' pattern @ ''$''
         in case RegExp src of
              None \<Rightarrow> Inl (SyntaxError src)
            | Some regex \<Rightarrow> Inr (map snd (filter (\<lambda>kv. rx_test False regex (fst kv)) ids))))"

text \<open>How \<open>binaryTrail\<close> adds the right operand \<open>y\<close> to \<open>x\<close>: a node of the same operator
  grows by one child, anything else becomes the first child of a new node. The source
  grows the node in place; a node that grows was made by this parse (by a quantifier or
  by an earlier operator) and nothing else holds it, the entries of the table being
  \<open>NamedExpr\<close> nodes, so the model returns the new node.\<close>

definition combine :: "string \<Rightarrow> expr \<Rightarrow> expr \<Rightarrow> expr" where
  "combine op x y =
     (if op = ''and'' then (case x of AndExpr xs \<Rightarrow> AndExpr (xs @ [y]) | _ \<Rightarrow> AndExpr [x, y])
      else if op = ''or'' then (case x of OrExpr xs \<Rightarrow> OrExpr (xs @ [y]) | _ \<Rightarrow> OrExpr [x, y])
      else x)"

text \<open>The branch of \<open>unary\<close> for a quantifier, after the token \<open>1\<close> or \<open>all\<close>.\<close>

definition quantifier :: "string \<Rightarrow> identifiers \<Rightarrow> string \<Rightarrow> error + expr \<times> string" where
  "quantifier tok ids s1 =
     (if fst (lex s1) \<noteq> ''of'' then Inl (SigmaError (''expected '' @ quoted ''of'' @ '' after '' @ quoted tok))
      else if fst (lex (snd (lex s1))) = [] then Inl (SigmaError (''expected word after '' @ quoted (tok @ '' of'')))
      else
        (case filterIdentifiers ids (fst (lex (snd (lex s1)))) of
           Inl e \<Rightarrow> Inl e
         | Inr [] \<Rightarrow>
             Inl (SigmaError (tok @ '' of '' @ fst (lex (snd (lex s1))) @ '' did not match any identifiers''))
         | Inr [x] \<Rightarrow> Inr (x, snd (lex (snd (lex s1))))
         | Inr (x # y # zs) \<Rightarrow>
             if tok = ''1'' then Inr (OrExpr (x # y # zs), snd (lex (snd (lex s1))))
             else Inr (AndExpr (x # y # zs), snd (lex (snd (lex s1))))))"

text \<open>The last branch of \<open>unary\<close>: the exact lookup of a bare identifier.\<close>

definition lookupIdentifier :: "string \<Rightarrow> identifiers \<Rightarrow> string \<Rightarrow> error + expr \<times> string" where
  "lookupIdentifier tok ids s1 =
     (case map_of ids tok of
        None \<Rightarrow> Inl (SigmaError (''unknown search identifier '' @ tok))
      | Some identifier \<Rightarrow> Inr (identifier, s1))"

text \<open>What follows a parenthesised expression: the closing parenthesis or an error.\<close>

definition closing :: "expr \<Rightarrow> string \<Rightarrow> error + expr \<times> string" where
  "closing x s2 =
     (if fst (lex s2) \<noteq> '')'' then Inl (SigmaError (''missing '' @ [CHR 0x27, CHR '')'', CHR 0x27])) else Inr (x, snd (lex s2)))"

text \<open>
  The recursive descent of \<open>ConditionParser\<close>, with the rest of the condition passed
  along. The methods call each other and loop, so each takes a bound on the depth of
  calls (\<open>expr\<close> is \<open>expression\<close> here): \<open>None\<close> says that the bound was reached, \<open>Some (Inl e)\<close> that \<open>e\<close> was thrown,
  \<open>Some (Inr (x, s))\<close> that \<open>x\<close> was returned with \<open>s\<close> left to read. \<open>climb\<close> is the inner
  loop of \<open>binaryTrail\<close>.
\<close>

function (sequential) unary :: "nat \<Rightarrow> identifiers \<Rightarrow> string \<Rightarrow> (error + expr \<times> string) option"
  and expression :: "nat \<Rightarrow> identifiers \<Rightarrow> string \<Rightarrow> (error + expr \<times> string) option"
  and binaryTrail :: "nat \<Rightarrow> identifiers \<Rightarrow> expr \<Rightarrow> int \<Rightarrow> string \<Rightarrow> (error + expr \<times> string) option"
  and climb :: "nat \<Rightarrow> identifiers \<Rightarrow> expr \<Rightarrow> int \<Rightarrow> string \<Rightarrow> (error + expr \<times> string) option" where
  "unary 0 ids s = None"
| "unary (Suc n) ids s =
     (if fst (lex s) = [] then Some (Inl (SigmaError ''unexpected end of condition''))
      else if fst (lex s) = ''('' then
        (case expression n ids (snd (lex s)) of
           None \<Rightarrow> None
         | Some (Inl e) \<Rightarrow> Some (Inl e)
         | Some (Inr (x, s2)) \<Rightarrow> Some (closing x s2))
      else if fst (lex s) = ''not'' then
        (case unary n ids (snd (lex s)) of
           None \<Rightarrow> None
         | Some (Inl e) \<Rightarrow> Some (Inl e)
         | Some (Inr (x, s2)) \<Rightarrow> Some (Inr (NotExpr x, s2)))
      else if fst (lex s) = ''1'' \<or> fst (lex s) = ''all'' then Some (quantifier (fst (lex s)) ids (snd (lex s)))
      else Some (lookupIdentifier (fst (lex s)) ids (snd (lex s))))"
| "expression 0 ids s = None"
| "expression (Suc n) ids s =
     (case unary n ids s of
        None \<Rightarrow> None
      | Some (Inl e) \<Rightarrow> Some (Inl e)
      | Some (Inr (x, s1)) \<Rightarrow> binaryTrail n ids x 0 s1)"
| "binaryTrail 0 ids x minPrecedence s = None"
| "binaryTrail (Suc n) ids x minPrecedence s =
     (if fst (lex s) = [] then Some (Inr (x, snd (lex s)))
      else if fst (lex s) = ''|'' then Some (Inl SigmaAggregationNotSupportedError)
      else if operatorPrecedence (fst (lex s)) < minPrecedence then Some (Inr (x, s))
      else
        (case unary n ids (snd (lex s)) of
           None \<Rightarrow> None
         | Some (Inl e) \<Rightarrow> Some (Inl e)
         | Some (Inr (y, s2)) \<Rightarrow>
             (case climb n ids y (operatorPrecedence (fst (lex s))) s2 of
                None \<Rightarrow> None
              | Some (Inl e) \<Rightarrow> Some (Inl e)
              | Some (Inr (y', s3)) \<Rightarrow>
                  binaryTrail n ids (combine (fst (lex s)) x y') minPrecedence s3)))"
| "climb 0 ids y precedence s = None"
| "climb (Suc n) ids y precedence s =
     (if fst (lex s) = [] then Some (Inr (y, snd (lex s)))
      else if operatorPrecedence (fst (lex s)) \<le> precedence then Some (Inr (y, s))
      else
        (case binaryTrail n ids y (precedence + 1) s of
           None \<Rightarrow> None
         | Some (Inl e) \<Rightarrow> Some (Inl e)
         | Some (Inr (y', s2)) \<Rightarrow> climb n ids y' precedence s2))"
  by pat_completeness auto
termination
  by (relation "measure (\<lambda>x. case x of Inl (Inl (n, r)) \<Rightarrow> n | Inl (Inr (n, r)) \<Rightarrow> n
         | Inr (Inl (n, r)) \<Rightarrow> n | Inr (Inr (n, r)) \<Rightarrow> n)") auto

text \<open>\<open>parse\<close>, and \<open>parseCondition\<close> with a bound that grows with the length of the
  condition.\<close>

definition parse :: "nat \<Rightarrow> identifiers \<Rightarrow> string \<Rightarrow> (error + expr) option" where
  "parse n ids s =
     (case expression n ids s of
        None \<Rightarrow> None
      | Some (Inl e) \<Rightarrow> Some (Inl e)
      | Some (Inr (x, s1)) \<Rightarrow>
          if fst (lex s1) \<noteq> [] then Some (Inl (SigmaError (''condition: unexpected '' @ quoted (fst (lex s1)))))
          else Some (Inr x))"

definition parseCondition :: "string \<Rightarrow> identifiers \<Rightarrow> (error + expr) option" where
  "parseCondition condition ids = parse (2 * length condition + 4) ids condition"

section \<open>Detections and rules\<close>

fun parseConditions :: "string list \<Rightarrow> identifiers \<Rightarrow> (error + expr list) option" where
  "parseConditions [] ids = Some (Inr [])"
| "parseConditions (c # cs) ids =
     (case parseCondition c ids of
        None \<Rightarrow> None
      | Some (Inl e) \<Rightarrow> Some (Inl e)
      | Some (Inr x) \<Rightarrow>
          (case parseConditions cs ids of
             None \<Rightarrow> None
           | Some (Inl e) \<Rightarrow> Some (Inl e)
           | Some (Inr xs) \<Rightarrow> Some (Inr (x # xs))))"

fun objectEntries :: "jsval \<Rightarrow> (string \<times> jsval) list" where
  "objectEntries (JObj m) = m"
| "objectEntries v = []"

text \<open>\<open>parseDetection\<close>; a \<open>Detection\<close> is its one field \<open>expr\<close>. The keys are sorted as
  \<open>sort()\<close> sorts strings, by character code.\<close>

definition parseDetection :: "jsval option \<Rightarrow> (error + expr) option" where
  "parseDetection block =
     (case block of
        None \<Rightarrow> Some (Inl (SigmaError ''missing detection''))
      | Some b \<Rightarrow>
          if \<not> truthy (Some b) then Some (Inl (SigmaError ''missing detection''))
          else if length (listOfStrings (getProp b ''condition'')) = 0
            then Some (Inl (SigmaError ''missing detection condition''))
          else if truthy (getProp b ''timeframe'') then Some (Inl SigmaAggregationNotSupportedError)
          else
            (case buildIdentifiers (objectEntries b)
                    (sort (filter (\<lambda>k. k \<noteq> ''condition'' \<and> k \<noteq> ''timeframe'')
                             (map fst (objectEntries b)))) of
               Inl e \<Rightarrow> Some (Inl e)
             | Inr identifiers \<Rightarrow>
                 (case parseConditions (listOfStrings (getProp b ''condition'')) identifiers of
                    None \<Rightarrow> None
                  | Some (Inl e) \<Rightarrow> Some (Inl e)
                  | Some (Inr [x]) \<Rightarrow> Some (Inr x)
                  | Some (Inr xs) \<Rightarrow> Some (Inr (OrExpr xs)))))"

text \<open>\<open>parseInt(s, 10)\<close>; \<open>None\<close> is \<open>NaN\<close>.\<close>

definition parseInt :: "string \<Rightarrow> int option" where
  "parseInt s =
     (let t = dropWhile isSpace s;
          neg = (t \<noteq> [] \<and> hd t = CHR ''-'');
          u = (if t \<noteq> [] \<and> (hd t = CHR ''-'' \<or> hd t = CHR ''+'') then tl t else t);
          ds = takeWhile isDigit u
      in if ds = [] then None
         else Some (if neg then - decVal ds else decVal ds))"

text \<open>\<open>SigmaDate.parse\<close> (date.ts) up to its checks: the year, month and day it hands to the
  constructor. What the constructor then does with them through \<open>Date.UTC\<close> is not
  modelled; it throws nothing.\<close>

definition SigmaDate_parse :: "string \<Rightarrow> error + int \<times> int \<times> int" where
  "SigmaDate_parse s =
     (case splitOn (\<lambda>c. c = CHR ''/'' \<or> c = CHR ''-'') s of
        [p0, p1, p2] \<Rightarrow>
          (case (parseInt p0, parseInt p1, parseInt p2) of
             (Some year, Some month, Some day) \<Rightarrow>
               if year < 100 then Inl (Error (''parse sigma date '' @ s @ '': short years not allowed''))
               else if month < 1 \<or> month > 12 then Inl (Error (''parse sigma date '' @ s @ '': invalid month '' @ String (JNum month)))
               else if day < 1 \<or> day > 31 then Inl (Error (''parse sigma date '' @ s @ '': invalid day '' @ String (JNum day)))
               else Inr (year, month, day)
           | _ \<Rightarrow> Inl (Error (''parse sigma date '' @ s @ '': invalid date component'')))
      | _ \<Rightarrow> Inl (Error (''parse sigma date '' @ s @ '': unknown format'')))"

text \<open>\<open>v ? SigmaDate.parse(v) : undefined\<close>: a truthy value that is no string has no
  \<open>split\<close>.\<close>

fun parseDateField :: "jsval option \<Rightarrow> error + (int \<times> int \<times> int) option" where
  "parseDateField (Some (JStr s)) =
     (if s = [] then Inr None
      else (case SigmaDate_parse s of Inl e \<Rightarrow> Inl e | Inr d \<Rightarrow> Inr (Some d)))"
| "parseDateField v = (if truthy v then Inl TypeError else Inr None)"

text \<open>The loop of \<open>parseRule\<close> over \<open>related\<close>: what \<open>related[i]\<close> reads for \<open>i\<close> below
  \<open>related.length\<close>, and the checks on each entry.\<close>

fun relatedEntries :: "jsval option \<Rightarrow> jsval list" where
  "relatedEntries (Some (JArr xs)) = xs"
| "relatedEntries (Some (JStr s)) = map (\<lambda>c. JStr [c]) s"
| "relatedEntries v = []"

fun relatedLoop :: "nat \<Rightarrow> jsval list \<Rightarrow> error option" where
  "relatedLoop i [] = None"
| "relatedLoop i (rel # rels) =
     (if \<not> truthy (Some rel) then relatedLoop (Suc i) rels
      else if \<not> truthy (getProp rel ''id'')
        then Some (SigmaError (''parse sigma rule: related['' @ showNat i @ '']: missing id''))
      else if \<not> truthy (getProp rel ''type'')
        then Some (SigmaError (''parse sigma rule: related['' @ showNat i @ '']: missing type''))
      else relatedLoop (Suc i) rels)"

text \<open>A rule, with the fields whose making can fail; the other metadata are copied from
  the document and no claim reads them.\<close>

record rule =
  title :: jsval
  detection :: expr
  date :: "(int \<times> int \<times> int) option"
  modified :: "(int \<times> int \<times> int) option"

text \<open>\<open>parseRule\<close>, from the decoded document. Reading \<open>title\<close> off \<open>null\<close> is a TypeError.\<close>

definition parseRule :: "jsval \<Rightarrow> (error + rule) option" where
  "parseRule doc =
     (if doc = JNull then Some (Inl TypeError)
      else if \<not> truthy (getProp doc ''title'') then Some (Inl (SigmaError ''parse sigma rule: missing title''))
      else
        (case parseDetection (getProp doc ''detection'') of
           None \<Rightarrow> None
         | Some (Inl e) \<Rightarrow> Some (Inl e)
         | Some (Inr d) \<Rightarrow>
             (case relatedLoop 0 (relatedEntries (getProp doc ''related'')) of
                Some e \<Rightarrow> Some (Inl e)
              | None \<Rightarrow>
                  (case parseDateField (getProp doc ''date'') of
                     Inl e \<Rightarrow> Some (Inl e)
                   | Inr dt \<Rightarrow>
                       (case parseDateField (getProp doc ''modified'') of
                          Inl e \<Rightarrow> Some (Inl e)
                        | Inr md \<Rightarrow>
                            Some (Inr \<lparr>title = the (getProp doc ''title''), detection = d,
                                       date = dt, modified = md\<rparr>))))))"

section \<open>Auxiliary notions for the proofs\<close>

text \<open>What the glob branch of \<open>processPattern\<close> makes of one character of a pattern: its
  text in the regex source, its tokens, and the expression it stands for.\<close>

definition escapeChar :: "char \<Rightarrow> string" where
  "escapeChar c = (if c \<in> set (''.*+?^${}()|[]'' @ [CHR 0x5C]) then [CHR 0x5C, c] else [c])"

definition globChar :: "char \<Rightarrow> string" where
  "globChar c = (if c = CHR ''*'' then ''.*'' else if c = CHR ''?'' then ''.'' else escapeChar c)"

definition globTok :: "char \<Rightarrow> rxtok list" where
  "globTok c = (if c = CHR ''*'' then [TDot, TStar] else if c = CHR ''?'' then [TDot] else [TChr c])"

definition globRx :: "char \<Rightarrow> rx" where
  "globRx c = (if c = CHR ''*'' then Star Dot else if c = CHR ''?'' then Dot else Chr c)"

text \<open>The regex of one glob pattern of a fieldless, unmodified atom, as the engine
  compiles it, and whether it matches a text.\<close>

definition globRegex :: "string \<Rightarrow> rx" where
  "globRegex p = rx_cat [rx_cat (map globRx p)]"

definition globMatch :: "string \<Rightarrow> string \<Rightarrow> bool" where
  "globMatch p s = rx_test True (globRegex p) s"

text \<open>A call of the parser that came back within its bound, with what is left to read
  shorter, or not longer, than what it was given.\<close>

definition shorter :: "(error + expr \<times> string) option \<Rightarrow> string \<Rightarrow> bool" where
  "shorter res s =
     (case res of
        None \<Rightarrow> False
      | Some (Inl e) \<Rightarrow> True
      | Some (Inr (x, s')) \<Rightarrow> length s' < length s)"

definition notLonger :: "(error + expr \<times> string) option \<Rightarrow> string \<Rightarrow> bool" where
  "notLonger res s =
     (case res of
        None \<Rightarrow> False
      | Some (Inl e) \<Rightarrow> True
      | Some (Inr (x, s')) \<Rightarrow> length s' \<le> length s)"

text \<open>The regex of one glob pattern between the anchors that \<open>processPattern\<close> may put
  around its group.\<close>

definition anchoredRegex :: "bool \<Rightarrow> bool \<Rightarrow> string \<Rightarrow> rx" where
  "anchoredRegex b e p =
     rx_cat ((if b then [Bol] else []) @ [rx_cat (map globRx p)] @ (if e then [Eol] else []))"

text \<open>A pattern without the glob characters \<open>*\<close> and \<open>?\<close>, and its occurrence in a text at
  an offset, up to the case of letters.\<close>

definition isLiteral :: "string \<Rightarrow> bool" where
  "isLiteral p = list_all (\<lambda>c. c \<noteq> CHR ''*'' \<and> c \<noteq> CHR ''?'') p"

definition occursAt :: "string \<Rightarrow> string \<Rightarrow> nat \<Rightarrow> bool" where
  "occursAt p v i =
     (i + length p \<le> length v \<and> map upperChar (take (length p) (drop i v)) = map upperChar p)"

section \<open>Verified properties\<close>

subsection \<open>The condition parser returns\<close>

text \<open>\<open>lex\<close> never makes the rest longer, and a token that is not empty makes it shorter.\<close>

lemma lex_unfold:
  "lex s = (case dropWhile isSpace s of
              [] \<Rightarrow> ([], [])
            | c # cs \<Rightarrow>
                if isDelim c then ([c], cs)
                else (takeWhile (\<lambda>x. \<not> (isDelim x \<or> isSpace x)) (c # cs),
                      dropWhile (\<lambda>x. \<not> (isDelim x \<or> isSpace x)) (c # cs)))"
  unfolding lex_def Let_def by (cases "dropWhile isSpace s") (simp_all only: list.simps)

lemma lex_rest_le: "length (snd (lex s)) \<le> length s"
proof -
  have 1: "length (dropWhile isSpace s) \<le> length s"
    by (rule length_dropWhile_le)
  show ?thesis
  proof (cases "dropWhile isSpace s")
    case Nil
    show ?thesis unfolding lex_unfold Nil by simp
  next
    case (Cons c cs)
    have cs: "length cs < length s" using 1 Cons by simp
    have "length (dropWhile (\<lambda>x. \<not> (isDelim x \<or> isSpace x)) (c # cs)) \<le> length (c # cs)"
      by (rule length_dropWhile_le)
    then have "length (dropWhile (\<lambda>x. \<not> (isDelim x \<or> isSpace x)) (c # cs)) \<le> length s"
      using cs by simp
    then show ?thesis unfolding lex_unfold Cons using cs by (cases "isDelim c") simp_all
  qed
qed

lemma lex_rest_less: "fst (lex s) \<noteq> [] \<Longrightarrow> length (snd (lex s)) < length s"
proof -
  assume tok: "fst (lex s) \<noteq> []"
  have 1: "length (dropWhile isSpace s) \<le> length s"
    by (rule length_dropWhile_le)
  show ?thesis
  proof (cases "dropWhile isSpace s")
    case Nil
    with tok show ?thesis unfolding lex_unfold by simp
  next
    case (Cons c cs)
    have cs: "length cs < length s" using 1 Cons by simp
    show ?thesis
    proof (cases "isDelim c")
      case True
      show ?thesis unfolding lex_unfold Cons using True cs by simp
    next
      case False
      have "\<not> isSpace c"
        using Cons by (metis dropWhile_eq_Cons_conv)
      with False have "dropWhile (\<lambda>x. \<not> (isDelim x \<or> isSpace x)) (c # cs)
                       = dropWhile (\<lambda>x. \<not> (isDelim x \<or> isSpace x)) cs"
        by simp
      moreover have "length (dropWhile (\<lambda>x. \<not> (isDelim x \<or> isSpace x)) cs) \<le> length cs"
        by (rule length_dropWhile_le)
      ultimately have "length (dropWhile (\<lambda>x. \<not> (isDelim x \<or> isSpace x)) (c # cs)) < length s"
        using cs by simp
      then show ?thesis unfolding lex_unfold Cons using False by simp
    qed
  qed
qed

text \<open>Each method, one call deeper: it comes back when the methods it calls do, and the
  bound that a text of length \<open>l\<close> needs is \<open>2 * l + 1\<close> for \<open>unary\<close> and \<open>binaryTrail\<close>,
  \<open>2 * l + 2\<close> for \<open>expr\<close> and the inner loop.\<close>

lemma unary_step:
  assumes IHu: "\<And>t. 2 * length t + 1 \<le> n \<Longrightarrow> shorter (unary n ids t) t"
    and IHe: "\<And>t. 2 * length t + 2 \<le> n \<Longrightarrow> shorter (expression n ids t) t"
    and n: "2 * length s + 1 \<le> Suc n"
  shows "shorter (unary (Suc n) ids s) s"
proof (cases "fst (lex s) = []")
  case True
  then show ?thesis by (simp add: shorter_def)
next
  case tok: False
  let ?s1 = "snd (lex s)"
  have l1: "length ?s1 < length s" using tok by (rule lex_rest_less)
  show ?thesis
  proof (cases "fst (lex s) = ''(''")
    case True
    have "2 * length ?s1 + 2 \<le> n" using l1 n by linarith
    from IHe [OF this] l1 True tok show ?thesis
      using lex_rest_le
      by (auto simp: shorter_def closing_def split: option.splits sum.splits
          intro: le_less_trans less_trans)
  next
    case np: False
    show ?thesis
    proof (cases "fst (lex s) = ''not''")
      case True
      have "2 * length ?s1 + 1 \<le> n" using l1 n by linarith
      from IHu [OF this] l1 True tok np show ?thesis
        by (auto simp: shorter_def split: option.splits sum.splits)
    next
      case nn: False
      show ?thesis
      proof (cases "fst (lex s) = ''1'' \<or> fst (lex s) = ''all''")
        case True
        have "length (snd (lex (snd (lex ?s1)))) < length s"
          using lex_rest_le [of ?s1] lex_rest_le [of "snd (lex ?s1)"] l1 by linarith
        with True tok np nn show ?thesis
          by (auto simp: shorter_def quantifier_def split: sum.splits list.splits)
      next
        case False
        with tok np nn l1 show ?thesis
          by (auto simp: shorter_def lookupIdentifier_def split: option.splits)
      qed
    qed
  qed
qed

lemma shorter_cases:
  assumes "shorter res s"
  obtains e where "res = Some (Inl e)"
  | x s' where "res = Some (Inr (x, s'))" "length s' < length s"
  using assms by (auto simp: shorter_def split: option.splits sum.splits)

lemma notLonger_cases:
  assumes "notLonger res s"
  obtains e where "res = Some (Inl e)"
  | x s' where "res = Some (Inr (x, s'))" "length s' \<le> length s"
  using assms by (auto simp: notLonger_def split: option.splits sum.splits)

lemma shorter_notLonger: "shorter res s \<Longrightarrow> notLonger res s"
  by (auto simp: shorter_def notLonger_def split: option.splits sum.splits)

lemma notLonger_shorter: "notLonger res t \<Longrightarrow> length t < length s \<Longrightarrow> shorter res s"
  by (auto simp: shorter_def notLonger_def split: option.splits sum.splits)

lemma notLonger_trans: "notLonger res t \<Longrightarrow> length t \<le> length s \<Longrightarrow> notLonger res s"
  by (auto simp: shorter_def notLonger_def split: option.splits sum.splits)

lemma expression_step:
  assumes IHu: "\<And>t. 2 * length t + 1 \<le> n \<Longrightarrow> shorter (unary n ids t) t"
    and IHb: "\<And>t x mp. 2 * length t + 1 \<le> n \<Longrightarrow> notLonger (binaryTrail n ids x mp t) t"
    and n: "2 * length s + 2 \<le> Suc n"
  shows "shorter (expression (Suc n) ids s) s"
proof -
  have "2 * length s + 1 \<le> n" using n by linarith
  from IHu [OF this] show ?thesis
  proof (cases rule: shorter_cases)
    case (1 e)
    then show ?thesis by (simp add: shorter_def)
  next
    case (2 x s1)
    have "2 * length s1 + 1 \<le> n" using 2(2) n by linarith
    from notLonger_shorter [OF IHb [OF this] 2(2)] 2(1) show ?thesis
      by simp
  qed
qed

lemma binaryTrail_step:
  assumes IHu: "\<And>t. 2 * length t + 1 \<le> n \<Longrightarrow> shorter (unary n ids t) t"
    and IHb: "\<And>t x mp. 2 * length t + 1 \<le> n \<Longrightarrow> notLonger (binaryTrail n ids x mp t) t"
    and IHc: "\<And>t y p. 2 * length t + 2 \<le> n \<Longrightarrow> notLonger (climb n ids y p t) t"
    and n: "2 * length s + 1 \<le> Suc n"
  shows "notLonger (binaryTrail (Suc n) ids x mp s) s
       \<and> (fst (lex s) \<noteq> [] \<and> \<not> operatorPrecedence (fst (lex s)) < mp
            \<longrightarrow> shorter (binaryTrail (Suc n) ids x mp s) s)"
proof (cases "fst (lex s) = []")
  case True
  then show ?thesis using lex_rest_le [of s] by (simp add: notLonger_def)
next
  case tok: False
  let ?s1 = "snd (lex s)"
  have l1: "length ?s1 < length s" using tok by (rule lex_rest_less)
  show ?thesis
  proof (cases "fst (lex s) = ''|''")
    case True
    with tok show ?thesis by (simp add: notLonger_def shorter_def)
  next
    case nb: False
    show ?thesis
    proof (cases "operatorPrecedence (fst (lex s)) < mp")
      case True
      with tok nb show ?thesis by (simp add: notLonger_def)
    next
      case hp: False
      have sh: "shorter (binaryTrail (Suc n) ids x mp s) s"
      proof -
        have "2 * length ?s1 + 1 \<le> n" using l1 n by linarith
        from IHu [OF this] show ?thesis
        proof (cases rule: shorter_cases)
          case (1 e)
          with tok nb hp show ?thesis by (simp add: shorter_def)
        next
          case u: (2 y s2)
          have "2 * length s2 + 2 \<le> n" using u(2) l1 n by linarith
          from IHc [OF this, of y "operatorPrecedence (fst (lex s))"] show ?thesis
          proof (cases rule: notLonger_cases)
            case (1 e)
            with tok nb hp u show ?thesis by (simp add: shorter_def)
          next
            case c: (2 y' s3)
            have l3: "length s3 < length s" using c(2) u(2) l1 by linarith
            have "2 * length s3 + 1 \<le> n" using l3 n by linarith
            from notLonger_shorter [OF IHb [OF this] l3] tok nb hp u c show ?thesis
              by simp
          qed
        qed
      qed
      with hp shorter_notLonger show ?thesis by blast
    qed
  qed
qed

lemma climb_step:
  assumes IHb: "\<And>t x mp. 2 * length t + 1 \<le> n \<Longrightarrow>
                  fst (lex t) \<noteq> [] \<Longrightarrow> \<not> operatorPrecedence (fst (lex t)) < mp \<Longrightarrow>
                  shorter (binaryTrail n ids x mp t) t"
    and IHc: "\<And>t y p. 2 * length t + 2 \<le> n \<Longrightarrow> notLonger (climb n ids y p t) t"
    and n: "2 * length s + 2 \<le> Suc n"
  shows "notLonger (climb (Suc n) ids y p s) s"
proof (cases "fst (lex s) = []")
  case True
  then show ?thesis using lex_rest_le [of s] by (simp add: notLonger_def)
next
  case tok: False
  show ?thesis
  proof (cases "operatorPrecedence (fst (lex s)) \<le> p")
    case True
    with tok show ?thesis by (simp add: notLonger_def)
  next
    case False
    then have hp: "\<not> operatorPrecedence (fst (lex s)) < p + 1" by simp
    have "2 * length s + 1 \<le> n" using n by linarith
    from IHb [OF this tok hp, of y] show ?thesis
    proof (cases rule: shorter_cases)
      case (1 e)
      with tok False show ?thesis by (simp add: notLonger_def)
    next
      case b: (2 y' s2)
      have "2 * length s2 + 2 \<le> n" using b(2) n by linarith
      from notLonger_trans [OF IHc [OF this], of s] b tok False show ?thesis
        by simp
    qed
  qed
qed

lemma parser_bound:
  "(\<forall>t. 2 * length t + 1 \<le> n \<longrightarrow> shorter (unary n ids t) t)
   \<and> (\<forall>t. 2 * length t + 2 \<le> n \<longrightarrow> shorter (expression n ids t) t)
   \<and> (\<forall>t x mp. 2 * length t + 1 \<le> n \<longrightarrow>
         notLonger (binaryTrail n ids x mp t) t
         \<and> (fst (lex t) \<noteq> [] \<and> \<not> operatorPrecedence (fst (lex t)) < mp
              \<longrightarrow> shorter (binaryTrail n ids x mp t) t))
   \<and> (\<forall>t y p. 2 * length t + 2 \<le> n \<longrightarrow> notLonger (climb n ids y p t) t)"
proof (induction n)
  case 0
  then show ?case by simp
next
  case (Suc n)
  have u: "\<And>t. 2 * length t + 1 \<le> n \<Longrightarrow> shorter (unary n ids t) t"
    and e: "\<And>t. 2 * length t + 2 \<le> n \<Longrightarrow> shorter (expression n ids t) t"
    and b: "\<And>t x mp. 2 * length t + 1 \<le> n \<Longrightarrow> notLonger (binaryTrail n ids x mp t) t"
    and bs: "\<And>t x mp. 2 * length t + 1 \<le> n \<Longrightarrow>
                  fst (lex t) \<noteq> [] \<Longrightarrow> \<not> operatorPrecedence (fst (lex t)) < mp \<Longrightarrow>
                  shorter (binaryTrail n ids x mp t) t"
    and c: "\<And>t y p. 2 * length t + 2 \<le> n \<Longrightarrow> notLonger (climb n ids y p t) t"
    using Suc.IH by blast+
  show ?case
    using unary_step [OF u e] expression_step [OF u b] binaryTrail_step [OF u b c]
      climb_step [OF bs c]
    by blast
qed

text \<open>So the bound of \<open>parseCondition\<close> is never reached: every condition, over every table,
  gives an expression or an error.\<close>

lemma parseCondition_returns: "\<exists>r. parseCondition condition ids = Some r"
proof -
  have "2 * length condition + 2 \<le> 2 * length condition + 4" by simp
  with parser_bound [of "2 * length condition + 4" ids]
  have "shorter (expression (2 * length condition + 4) ids condition) condition" by blast
  then show ?thesis
    by (cases rule: shorter_cases) (simp_all add: parseCondition_def parse_def)
qed

lemma parseConditions_returns: "\<exists>r. parseConditions cs ids = Some r"
proof (induction cs)
  case Nil
  then show ?case by simp
next
  case (Cons c cs)
  obtain r where r: "parseCondition c ids = Some r" using parseCondition_returns by blast
  from Cons obtain rs where rs: "parseConditions cs ids = Some rs" by blast
  show ?case using r rs by (cases r; cases rs) simp_all
qed

lemma parseDetection_returns: "\<exists>r. parseDetection block = Some r"
proof -
  have "\<exists>r. (case parseConditions cs ids of
               None \<Rightarrow> None
             | Some (Inl e) \<Rightarrow> Some (Inl e)
             | Some (Inr [x]) \<Rightarrow> Some (Inr x)
             | Some (Inr xs) \<Rightarrow> Some (Inr (OrExpr xs))) = Some (r :: error + expr)" for cs ids
    using parseConditions_returns [of cs ids]
    by (auto split: option.splits sum.splits list.splits)
  then show ?thesis
    unfolding parseDetection_def by (auto split: option.splits sum.splits)
qed

lemma parseRule_returns: "\<exists>r. parseRule doc = Some r"
  using parseDetection_returns [of "getProp doc ''title''"]
    parseDetection_returns [of "getProp doc ''detection''"]
  unfolding parseRule_def by (auto split: option.splits sum.splits)

subsection \<open>Reserved tokens of the condition language\<close>

text \<open>
  Claim C10. The tokens \<open>1\<close> and \<open>all\<close> are reserved where a unary term is read: when the
  token read there is \<open>all\<close> or \<open>1\<close> and the token after it is not \<open>of\<close>, \<open>unary\<close> throws
  the error that asks for \<open>of\<close>, whatever the identifier table holds, and so does the parse
  of a condition that begins this way. The table is never consulted for these two tokens,
  so an identifier named \<open>all\<close> or \<open>1\<close> cannot be referenced by its bare name.
\<close>

theorem reserved_quantifier_tokens:
  assumes "fst (lex s) = ''all'' \<or> fst (lex s) = ''1''"
    and "fst (lex (snd (lex s))) \<noteq> ''of''"
  shows "unary (Suc n) ids s = Some (Inl (SigmaError (''expected '' @ quoted ''of'' @ '' after '' @ quoted (fst (lex s)))))
       \<and> parseCondition s ids = Some (Inl (SigmaError (''expected '' @ quoted ''of'' @ '' after '' @ quoted (fst (lex s)))))"
proof -
  have u: "unary (Suc k) ids s = Some (Inl (SigmaError (''expected '' @ quoted ''of'' @ '' after '' @ quoted (fst (lex s)))))" for k
    using assms by (auto simp: quantifier_def)
  have e: "expression (Suc (Suc k)) ids s = Some (Inl (SigmaError (''expected '' @ quoted ''of'' @ '' after '' @ quoted (fst (lex s)))))" for k
    by (simp add: u del: unary.simps)
  have "2 * length s + 4 = Suc (Suc (2 * length s + 2))" by simp
  then have "parseCondition s ids = Some (Inl (SigmaError (''expected '' @ quoted ''of'' @ '' after '' @ quoted (fst (lex s)))))"
    unfolding parseCondition_def parse_def by (simp only: e) simp
  with u show ?thesis by blast
qed

text \<open>The condition \<open>all and x\<close> over a table that does hold an identifier \<open>all\<close>.\<close>

theorem reserved_quantifier_tokens_witness:
  "(fst (lex ''all and x'') = ''all'' \<or> fst (lex ''all and x'') = ''1'')
   \<and> fst (lex (snd (lex ''all and x''))) \<noteq> ''of''
   \<and> map_of [(''all'', NamedExpr ''all'' (SearchAtom None [] [''x''])),
              (''x'', NamedExpr ''x'' (SearchAtom None [] [''y'']))] ''all'' \<noteq> None
   \<and> parseCondition ''all and x''
         [(''all'', NamedExpr ''all'' (SearchAtom None [] [''x''])),
          (''x'', NamedExpr ''x'' (SearchAtom None [] [''y'']))]
       = Some (Inl (SigmaError (''expected '' @ quoted ''of'' @ '' after '' @ quoted ''all'')))"
proof -
  have a: "fst (lex ''all and x'') = ''all''"
    by (simp add: lex_def isSpace_def isDelim_def)
  have b: "fst (lex (snd (lex ''all and x''))) \<noteq> ''of''"
    by (simp add: lex_def isSpace_def isDelim_def)
  from reserved_quantifier_tokens [of "''all and x''" 0
         "[(''all'', NamedExpr ''all'' (SearchAtom None [] [''x''])),
           (''x'', NamedExpr ''x'' (SearchAtom None [] [''y'']))]"] a b
  show ?thesis by simp
qed

subsection \<open>Quantifiers over the whole table\<close>









subsection \<open>The key \<open>timeframe\<close>\<close>

text \<open>
  Claim C2, as stated, fails: a detection block that holds \<open>timeframe\<close> but no condition is
  refused for the missing condition, by the check that comes first. (And a \<open>timeframe\<close>
  whose value is falsy, here the empty string, is passed over: the rule parses.)
\<close>

theorem timeframe_counterexample:
  "parseRule (JObj [(''title'', JStr ''t''), (''detection'', JObj [(''timeframe'', JStr ''5m'')])])
     = Some (Inl (SigmaError ''missing detection condition''))
   \<and> parseRule (JObj [(''title'', JStr ''t''),
         (''detection'', JObj [(''timeframe'', JStr ''''), (''a'', JStr ''x''), (''condition'', JStr ''a'')])])
     = Some (Inr \<lparr>title = JStr ''t'', detection = NamedExpr ''a'' (SearchAtom None [] [''x'']),
                  date = None, modified = None\<rparr>)"
  by code_simp

text \<open>
  Claim C2, amended. When the document has a truthy title and its detection block has at
  least one condition string and a top-level key \<open>timeframe\<close> with a truthy value, \<open>parseRule\<close>
  fails with the unsupported-aggregation error, whatever else the block holds.
\<close>

theorem timeframe_rejected:
  assumes "truthy (getProp doc ''title'')"
    and "getProp doc ''detection'' = Some block"
    and "listOfStrings (getProp block ''condition'') \<noteq> []"
    and "truthy (getProp block ''timeframe'')"
  shows "parseRule doc = Some (Inl SigmaAggregationNotSupportedError)"
proof -
  have d: "doc \<noteq> JNull" using assms(1) by auto
  have t: "truthy (Some block)" using assms(3) by (cases block) auto
  have "parseDetection (Some block) = Some (Inl SigmaAggregationNotSupportedError)"
    using assms(3,4) t by (simp add: parseDetection_def)
  then show ?thesis
    using d assms(1,2) by (simp add: parseRule_def)
qed

theorem timeframe_rejected_witness:
  "truthy (getProp (JObj [(''title'', JStr ''t''),
       (''detection'', JObj [(''timeframe'', JStr ''5m''), (''condition'', JStr ''a'')])]) ''title'')
   \<and> listOfStrings (getProp (JObj [(''timeframe'', JStr ''5m''), (''condition'', JStr ''a'')]) ''condition'') \<noteq> []
   \<and> truthy (getProp (JObj [(''timeframe'', JStr ''5m''), (''condition'', JStr ''a'')]) ''timeframe'')
   \<and> parseRule (JObj [(''title'', JStr ''t''),
       (''detection'', JObj [(''timeframe'', JStr ''5m''), (''condition'', JStr ''a'')])])
     = Some (Inl SigmaAggregationNotSupportedError)"
  using timeframe_rejected [of "JObj [(''title'', JStr ''t''),
       (''detection'', JObj [(''timeframe'', JStr ''5m''), (''condition'', JStr ''a'')])]"
       "JObj [(''timeframe'', JStr ''5m''), (''condition'', JStr ''a'')]"]
  by simp

subsection \<open>Identifiers with scalar values\<close>





subsection \<open>A field that the entry does not have\<close>

text \<open>
  Claim C3, as stated, fails: the entry has no key \<open>user\<close>, and the atom on the field \<open>user\<close>
  with the pattern \<open>*\<close> matches it.
\<close>

theorem absent_field_counterexample:
  "exprMatches \<lparr>message = ''m'', entry_fields = [(''other'', ''x'')]\<rparr> None
     (SearchAtom (Some ''user'') [] [''*'']) = Inr True"
  by code_simp

text \<open>
  Claim C3, amended. For a \<open>SearchAtom\<close> with a named field and a log entry in which no key
  equals that name up to case, the text that is matched is the empty string: \<open>exprMatches\<close>
  returns what it returns on an entry whose only field is that one with the empty value, for
  every pattern list and modifier set.
\<close>

theorem absent_field_is_empty_text:
  assumes "f \<noteq> []"
    and "list_all (\<lambda>kv. toLowerCase (fst kv) \<noteq> toLowerCase f) (entry_fields entry)"
  shows "fieldContent (Some f) entry = []
       \<and> exprMatches entry opts (SearchAtom (Some f) mods ps)
         = exprMatches (entry\<lparr>entry_fields := [(f, [])]\<rparr>) opts (SearchAtom (Some f) mods ps)"
proof -
  have "find (\<lambda>kv. toLowerCase (fst kv) = toLowerCase f) (entry_fields entry) = None"
    using assms(2) by (auto simp: find_None_iff list_all_iff)
  then have c: "fieldContent (Some f) entry = []"
    using assms(1) by (simp add: fieldContent_def noField_def)
  have c': "fieldContent (Some f) (entry\<lparr>entry_fields := [(f, [])]\<rparr>) = []"
    using assms(1) by (simp add: fieldContent_def noField_def)
  show ?thesis
    using c c' by (simp add: atomMatches_def)
qed

theorem absent_field_is_empty_text_witness:
  "''user'' \<noteq> []
   \<and> list_all (\<lambda>kv. toLowerCase (fst kv) \<noteq> toLowerCase ''user'')
        (entry_fields \<lparr>message = ''m'', entry_fields = [(''other'', ''x'')]\<rparr>)
   \<and> fieldContent (Some ''user'') \<lparr>message = ''m'', entry_fields = [(''other'', ''x'')]\<rparr> = []
   \<and> exprMatches \<lparr>message = ''m'', entry_fields = [(''other'', ''x'')]\<rparr> None
        (SearchAtom (Some ''user'') [] [''root''])
      = exprMatches \<lparr>message = ''m'', entry_fields = [(''user'', [])]\<rparr> None
        (SearchAtom (Some ''user'') [] [''root''])"
proof -
  have h: "list_all (\<lambda>kv. toLowerCase (fst kv) \<noteq> toLowerCase ''user'')
        (entry_fields \<lparr>message = ''m'', entry_fields = [(''other'', ''x'')]\<rparr>)"
    by (simp add: toLowerCase_def)
  from absent_field_is_empty_text [of "''user''" "\<lparr>message = ''m'', entry_fields = [(''other'', ''x'')]\<rparr>"
      None "[]" "[''root'']", OF _ h] h
  show ?thesis by simp
qed

subsection \<open>Exceptions during evaluation\<close>

text \<open>
  Claim C1 at a failing input. The rule has one atom, on the field \<open>cmd\<close> with the modifiers
  \<open>expand\<close> and \<open>re\<close> and the placeholder \<open>%p%\<close>; \<open>parseRule\<close> accepts it. With the placeholder
  table that gives \<open>p\<close> the value \<open>(\<close>, evaluation throws the SyntaxError of the regex
  constructor.
\<close>

theorem expand_regex_throws:
  "parseRule (JObj [(''title'', JStr ''t''),
       (''detection'', JObj [(''selection'', JObj [(''cmd|expand|re'', JStr ''%p%'')]),
                             (''condition'', JStr ''selection'')])])
     = Some (Inr \<lparr>title = JStr ''t'',
                  detection = NamedExpr ''selection'' (SearchAtom (Some ''cmd'') [''expand'', ''re''] [''%p%'']),
                  date = None, modified = None\<rparr>)
   \<and> exprMatches \<lparr>message = '''', entry_fields = [(''cmd'', ''x'')]\<rparr> (Some [(''p'', [''(''])])
        (NamedExpr ''selection'' (SearchAtom (Some ''cmd'') [''expand'', ''re''] [''%p%'']))
     = Inl (SyntaxError ''(?:()'')"
  by code_simp

subsection \<open>The pattern of a quantifier\<close>

text \<open>
  Claim C5 at a failing input. Over the one identifier \<open>abc\<close> the condition \<open>1 of a.c\<close> selects
  it, the dot of the pattern standing for any character; and the pattern \<open>a[c\<close> does not
  select the identifier of that very name but throws a SyntaxError.
\<close>

theorem quantifier_pattern_is_regex:
  "parseCondition ''1 of a.c'' [(''abc'', NamedExpr ''abc'' (SearchAtom None [] [''x'']))]
     = Some (Inr (NamedExpr ''abc'' (SearchAtom None [] [''x''])))
   \<and> parseCondition ''1 of a[c'' [(''a[c'', NamedExpr ''a[c'' (SearchAtom None [] [''x'']))]
     = Some (Inl (SyntaxError ''^a[c$''))"
  by code_simp

subsection \<open>The regex of a glob pattern\<close>

text \<open>The glob branch of \<open>processPattern\<close>, character by character: the two replacements
  after \<open>escapeRegex\<close> turn every \<open>*\<close> into \<open>.*\<close>, every \<open>?\<close> into \<open>.\<close>, and leave every other
  character escaped or as it is.\<close>

lemma escapeRegex_units: "escapeRegex s = concat (map escapeChar s)"
  unfolding escapeRegex_def escapeChar_def by (rule refl)

lemma replaceAll2_pass:
  "\<not> (x = a \<and> R \<noteq> [] \<and> hd R = b) \<Longrightarrow> replaceAll2 a b r (x # R) = x # replaceAll2 a b r R"
  by (cases R) auto

lemma escape_head_star: "concat (map escapeChar p) = y # zs \<Longrightarrow> y \<noteq> CHR ''*''"
  by (cases p) (auto simp: escapeChar_def split: if_splits)

lemma glob_pass1:
  "replaceAll2 (CHR 0x5C) (CHR ''*'') ''.*'' (concat (map escapeChar p))
   = concat (map (\<lambda>c. if c = CHR ''*'' then ''.*'' else escapeChar c) p)"
proof (induction p)
  case Nil
  then show ?case by simp
next
  case (Cons c p)
  let ?R = "concat (map escapeChar p)"
  have hd: "\<not> (?R \<noteq> [] \<and> hd ?R = CHR ''*'')"
    using escape_head_star [of p] by (cases ?R) auto
  show ?case
  proof (cases "c = CHR ''*''")
    case True
    then show ?thesis using Cons.IH by (simp add: escapeChar_def)
  next
    case False
    show ?thesis
    proof (cases "c \<in> set (''.*+?^${}()|[]'' @ [CHR 0x5C])")
      case True
      then have e: "escapeChar c = [CHR 0x5C, c]" by (simp add: escapeChar_def)
      have "replaceAll2 (CHR 0x5C) (CHR ''*'') ''.*'' (CHR 0x5C # c # ?R)
            = CHR 0x5C # replaceAll2 (CHR 0x5C) (CHR ''*'') ''.*'' (c # ?R)"
        using False by simp
      also have "\<dots> = CHR 0x5C # c # replaceAll2 (CHR 0x5C) (CHR ''*'') ''.*'' ?R"
        using hd by (simp add: replaceAll2_pass)
      finally show ?thesis using False e Cons.IH by simp
    next
      case nsp: False
      then have e: "escapeChar c = [c]" and b: "c \<noteq> CHR 0x5C" by (auto simp: escapeChar_def)
      have "replaceAll2 (CHR 0x5C) (CHR ''*'') ''.*'' (c # ?R)
            = c # replaceAll2 (CHR 0x5C) (CHR ''*'') ''.*'' ?R"
        using b by (simp add: replaceAll2_pass)
      then show ?thesis using False e Cons.IH by simp
    qed
  qed
qed

lemma pass1_head_quest:
  "concat (map (\<lambda>c. if c = CHR ''*'' then ''.*'' else escapeChar c) p) = y # zs \<Longrightarrow> y \<noteq> CHR ''?''"
  by (cases p) (auto simp: escapeChar_def split: if_splits)

lemma glob_pass2:
  "replaceAll2 (CHR 0x5C) (CHR ''?'') ''.''
     (concat (map (\<lambda>c. if c = CHR ''*'' then ''.*'' else escapeChar c) p))
   = concat (map globChar p)"
proof (induction p)
  case Nil
  then show ?case by simp
next
  case (Cons c p)
  let ?R = "concat (map (\<lambda>c. if c = CHR ''*'' then ''.*'' else escapeChar c) p)"
  have hd: "\<not> (?R \<noteq> [] \<and> hd ?R = CHR ''?'')"
    using pass1_head_quest [of p] by (cases ?R) auto
  show ?case
  proof (cases "c = CHR ''*''")
    case True
    have "replaceAll2 (CHR 0x5C) (CHR ''?'') ''.'' (CHR ''.'' # CHR ''*'' # ?R)
          = CHR ''.'' # replaceAll2 (CHR 0x5C) (CHR ''?'') ''.'' (CHR ''*'' # ?R)"
      by simp
    also have "\<dots> = CHR ''.'' # CHR ''*'' # replaceAll2 (CHR 0x5C) (CHR ''?'') ''.'' ?R"
      by (simp add: replaceAll2_pass)
    finally show ?thesis using True Cons.IH by (simp add: globChar_def)
  next
    case ns: False
    show ?thesis
    proof (cases "c = CHR ''?''")
      case True
      then show ?thesis using Cons.IH by (simp add: globChar_def escapeChar_def)
    next
      case nq: False
      show ?thesis
      proof (cases "c \<in> set (''.*+?^${}()|[]'' @ [CHR 0x5C])")
        case True
        then have e: "escapeChar c = [CHR 0x5C, c]" by (simp add: escapeChar_def)
        have "replaceAll2 (CHR 0x5C) (CHR ''?'') ''.'' (CHR 0x5C # c # ?R)
              = CHR 0x5C # replaceAll2 (CHR 0x5C) (CHR ''?'') ''.'' (c # ?R)"
          using nq by simp
        also have "\<dots> = CHR 0x5C # c # replaceAll2 (CHR 0x5C) (CHR ''?'') ''.'' ?R"
          using hd by (simp add: replaceAll2_pass)
        finally show ?thesis using ns nq e Cons.IH by (simp add: globChar_def)
      next
        case False
        then have e: "escapeChar c = [c]" and b: "c \<noteq> CHR 0x5C" by (auto simp: escapeChar_def)
        have "replaceAll2 (CHR 0x5C) (CHR ''?'') ''.'' (c # ?R)
              = c # replaceAll2 (CHR 0x5C) (CHR ''?'') ''.'' ?R"
          using b by (simp add: replaceAll2_pass)
        then show ?thesis using ns nq e Cons.IH by (simp add: globChar_def)
      qed
    qed
  qed
qed

lemma glob_source:
  "replaceAll2 (CHR 0x5C) (CHR ''?'') ''.'' (replaceAll2 (CHR 0x5C) (CHR ''*'') ''.*'' (escapeRegex p))
   = concat (map globChar p)"
  by (simp add: escapeRegex_units glob_pass1 glob_pass2)

text \<open>The tokens of such a source, and what the stack of groups makes of them.\<close>

lemma special_not_alnum:
  "c \<in> set (''.*+?^${}()|[]'' @ [CHR 0x5C]) \<Longrightarrow> \<not> isAlnum c"
  by (auto simp: isAlnum_def isDigit_def isUpper_def isLower_def)

lemma plain_tok:
  "c \<notin> set (''.*+?^${}()|[]'' @ [CHR 0x5C]) \<Longrightarrow> rx_plain_tok c = TChr c"
  by (simp add: rx_plain_tok_def)

lemma rx_lex_globChar:
  "rx_lex (globChar c @ rest) = map_option ((@) (globTok c)) (rx_lex rest)"
proof (cases "c = CHR ''*'' \<or> c = CHR ''?''")
  case True
  then show ?thesis
    by (cases "rx_lex rest") (auto simp: globChar_def globTok_def rx_plain_tok_def)
next
  case False
  show ?thesis
  proof (cases "c \<in> set (''.*+?^${}()|[]'' @ [CHR 0x5C])")
    case True
    then have "escapeChar c = [CHR 0x5C, c]" by (simp add: escapeChar_def)
    with False special_not_alnum [OF True] show ?thesis
      by (cases "rx_lex rest") (simp_all add: globChar_def globTok_def)
  next
    case nsp: False
    then have e: "escapeChar c = [c]" by (simp add: escapeChar_def)
    have "c \<noteq> CHR 0x5C" "c \<noteq> CHR ''(''" "c \<noteq> CHR ''[''" "c \<noteq> CHR ''{''"
      using nsp by auto
    with False e plain_tok [OF nsp] show ?thesis
      by (cases "rx_lex rest") (simp_all add: globChar_def globTok_def)
  qed
qed

lemma rx_lex_glob:
  "rx_lex (concat (map globChar p) @ rest)
   = map_option ((@) (concat (map globTok p))) (rx_lex rest)"
proof (induction p)
  case Nil
  then show ?case by (cases "rx_lex rest") simp_all
next
  case (Cons c p)
  then show ?case
    by (cases "rx_lex rest") (simp_all add: rx_lex_globChar)
qed

lemma rx_run_globTok:
  "\<exists>q'. rx_run stk as ts q (globTok c @ r) = rx_run stk as (globRx c # ts) q' r"
  by (auto simp: globTok_def globRx_def)

lemma rx_run_glob:
  "\<exists>q'. rx_run stk as ts q (concat (map globTok p) @ r) = rx_run stk as (rev (map globRx p) @ ts) q' r"
proof (induction p arbitrary: ts q)
  case Nil
  then show ?case by auto
next
  case (Cons c p)
  obtain q1 where 1: "rx_run stk as ts q (globTok c @ concat (map globTok p) @ r)
                      = rx_run stk as (globRx c # ts) q1 (concat (map globTok p) @ r)"
    using rx_run_globTok by blast
  obtain q2 where 2: "rx_run stk as (globRx c # ts) q1 (concat (map globTok p) @ r)
                      = rx_run stk as (rev (map globRx p) @ globRx c # ts) q2 r"
    using Cons.IH by blast
  show ?case using 1 2 by auto
qed

text \<open>One parenthesised glob pattern, as tokens and as a term of the enclosing frame.\<close>

lemma rx_run_group:
  "rx_run stk as ts q (TOpen # concat (map globTok p) @ TClose # r)
   = rx_run stk as (rx_cat (map globRx p) # ts) Atom r"
proof -
  obtain q' where "rx_run ((as, ts) # stk) [] [] NoRep (concat (map globTok p) @ TClose # r)
                   = rx_run ((as, ts) # stk) [] (rev (map globRx p) @ []) q' (TClose # r)"
    using rx_run_glob by blast
  then show ?thesis by (simp add: frame_rx_def)
qed

lemma rx_lex_plain:
  "rx_lex ((''(?:'' @ concat (map globChar p) @ '')'') @ rest)
   = map_option ((@) (TOpen # concat (map globTok p) @ [TClose])) (rx_lex rest)"
proof -
  have "rx_lex ('')'' @ rest) = map_option ((#) TClose) (rx_lex rest)"
    by (simp add: rx_plain_tok_def)
  then have "rx_lex (concat (map globChar p) @ '')'' @ rest)
             = map_option ((@) (concat (map globTok p) @ [TClose])) (rx_lex rest)"
    using rx_lex_glob [of p "'')'' @ rest"] by (cases "rx_lex rest") simp_all
  then show ?thesis
    by (cases "rx_lex rest") simp_all
qed

text \<open>The group between its anchors, and a list of such sources joined by a bar.\<close>

lemma rx_lex_unit:
  "rx_lex (((if b then ''^'' else []) @ ''(?:'' @ concat (map globChar p) @ '')'' @ (if e then ''$'' else [])) @ rest)
   = map_option ((@) ((if b then [TBol] else []) @ TOpen # concat (map globTok p) @ [TClose]
                       @ (if e then [TEol] else []))) (rx_lex rest)"
proof -
  have d: "rx_lex ((if e then ''$'' else []) @ rest)
           = map_option ((@) (if e then [TEol] else [])) (rx_lex rest)"
    by (cases "rx_lex rest") (simp_all add: rx_plain_tok_def)
  have g: "rx_lex ((''(?:'' @ concat (map globChar p) @ '')'') @ (if e then ''$'' else []) @ rest)
           = map_option ((@) (TOpen # concat (map globTok p) @ [TClose] @ (if e then [TEol] else [])))
               (rx_lex rest)"
    unfolding rx_lex_plain d by (cases "rx_lex rest") simp_all
  show ?thesis
  proof (cases b)
    case True
    have "rx_lex (CHR ''^'' # (''(?:'' @ concat (map globChar p) @ '')'') @ (if e then ''$'' else []) @ rest)
          = map_option ((#) TBol)
              (rx_lex ((''(?:'' @ concat (map globChar p) @ '')'') @ (if e then ''$'' else []) @ rest))"
      by (simp add: rx_plain_tok_def)
    with True g show ?thesis by (cases "rx_lex rest") simp_all
  next
    case False
    with g show ?thesis by simp
  qed
qed

lemma rx_lex_join_units:
  "ps \<noteq> [] \<Longrightarrow>
   rx_lex (join ''|'' (map (\<lambda>p. (if b then ''^'' else []) @ ''(?:'' @ concat (map globChar p) @ '')''
                                 @ (if e then ''$'' else [])) ps))
   = Some (join [TBar] (map (\<lambda>p. (if b then [TBol] else []) @ TOpen # concat (map globTok p) @ [TClose]
                                   @ (if e then [TEol] else [])) ps))"
proof (induction ps rule: induct_list012)
  case 1
  then show ?case by simp
next
  case (2 p)
  show ?case using rx_lex_unit [of b p e "[]"] by simp
next
  case (3 p q ps)
  let ?src = "\<lambda>p. (if b then ''^'' else []) @ ''(?:'' @ concat (map globChar p) @ '')'' @ (if e then ''$'' else [])"
  let ?tok = "\<lambda>p. (if b then [TBol] else []) @ TOpen # concat (map globTok p) @ [TClose] @ (if e then [TEol] else [])"
  have bar: "rx_lex (''|'' @ rest) = map_option ((#) TBar) (rx_lex rest)" for rest
    by (simp add: rx_plain_tok_def)
  have "rx_lex (?src p @ ''|'' @ join ''|'' (map ?src (q # ps)))
        = Some (?tok p @ TBar # join [TBar] (map ?tok (q # ps)))"
    unfolding rx_lex_unit bar using 3 by simp
  then show ?case by simp
qed

lemma rx_run_unit:
  "\<exists>q'. rx_run [] as [] q (((if b then [TBol] else []) @ TOpen # concat (map globTok p) @ [TClose]
                            @ (if e then [TEol] else [])) @ r)
        = rx_run [] as
            (rev ((if b then [Bol] else []) @ [rx_cat (map globRx p)] @ (if e then [Eol] else []))) q' r"
proof -
  have g: "rx_run [] as ts q1 (TOpen # concat (map globTok p) @ TClose # r')
           = rx_run [] as (rx_cat (map globRx p) # ts) Atom r'" for ts q1 r'
    by (rule rx_run_group)
  show ?thesis
    using g [of "[]" q "(if e then [TEol] else []) @ r"] g [of "[Bol]" NoRep "(if e then [TEol] else []) @ r"]
    by (cases b; cases e) auto
qed

lemma rx_run_bar: "rx_run [] as ts q (TBar # r) = rx_run [] (rx_cat (rev ts) # as) [] NoRep r"
  by simp

lemma rx_run_join_units:
  "ps \<noteq> [] \<Longrightarrow>
   rx_run [] as [] q (join [TBar] (map (\<lambda>p. (if b then [TBol] else []) @ TOpen # concat (map globTok p)
                                              @ [TClose] @ (if e then [TEol] else [])) ps))
   = Some (rx_alts (rev as @ map (anchoredRegex b e) ps))"
proof (induction ps arbitrary: as q rule: induct_list012)
  case 1
  then show ?case by simp
next
  case (2 p)
  obtain q' where "rx_run [] as [] q (((if b then [TBol] else []) @ TOpen # concat (map globTok p) @ [TClose]
                            @ (if e then [TEol] else [])) @ [])
        = rx_run [] as
            (rev ((if b then [Bol] else []) @ [rx_cat (map globRx p)] @ (if e then [Eol] else []))) q' []"
    using rx_run_unit by blast
  then show ?case by (simp add: frame_rx_def anchoredRegex_def)
next
  case (3 p r ps)
  let ?tok = "\<lambda>p. (if b then [TBol] else []) @ TOpen # concat (map globTok p) @ [TClose] @ (if e then [TEol] else [])"
  let ?rest = "join [TBar] (map ?tok (r # ps))"
  obtain q' where "rx_run [] as [] q (?tok p @ TBar # ?rest)
        = rx_run [] as
            (rev ((if b then [Bol] else []) @ [rx_cat (map globRx p)] @ (if e then [Eol] else []))) q'
            (TBar # ?rest)"
    using rx_run_unit by blast
  also have "\<dots> = rx_run [] (anchoredRegex b e p # as) [] NoRep ?rest"
    unfolding rx_run_bar by (simp add: anchoredRegex_def)
  also have "\<dots> = Some (rx_alts (rev (anchoredRegex b e p # as) @ map (anchoredRegex b e) (r # ps)))"
    using 3 by blast
  finally show ?case by simp
qed

text \<open>Without \<open>re\<close>, \<open>base64offset\<close>, \<open>base64\<close> and \<open>windash\<close>, the source that \<open>processPattern\<close>
  makes of a pattern, and the regex that the joined sources compile to.\<close>

lemma glob_mode_source:
  assumes "''re'' \<notin> set mods" "''base64offset'' \<notin> set mods" "''base64'' \<notin> set mods"
    "''windash'' \<notin> set mods"
  shows "processPattern field mods p
         = (if \<not> noField field \<and> ''contains'' \<notin> set mods \<and> ''endswith'' \<notin> set mods then ''^'' else [])
           @ ''(?:'' @ concat (map globChar p) @ '')''
           @ (if \<not> noField field \<and> ''contains'' \<notin> set mods \<and> ''startswith'' \<notin> set mods then ''$'' else [])"
  using assms unfolding processPattern_def Let_def glob_source by (simp only: if_False) simp

lemma RegExp_glob_mode:
  assumes "ps \<noteq> []"
    and "''re'' \<notin> set mods" "''base64offset'' \<notin> set mods" "''base64'' \<notin> set mods"
      "''windash'' \<notin> set mods"
  shows "RegExp (join ''|'' (map (processPattern field mods) ps))
         = Some (rx_alts (map (anchoredRegex
              (\<not> noField field \<and> ''contains'' \<notin> set mods \<and> ''endswith'' \<notin> set mods)
              (\<not> noField field \<and> ''contains'' \<notin> set mods \<and> ''startswith'' \<notin> set mods)) ps))"
proof -
  let ?b = "\<not> noField field \<and> ''contains'' \<notin> set mods \<and> ''endswith'' \<notin> set mods"
  let ?e = "\<not> noField field \<and> ''contains'' \<notin> set mods \<and> ''startswith'' \<notin> set mods"
  have m: "map (processPattern field mods) ps
           = map (\<lambda>p. (if ?b then ''^'' else []) @ ''(?:'' @ concat (map globChar p) @ '')''
                        @ (if ?e then ''$'' else [])) ps"
    using glob_mode_source [OF assms(2-5), of field] by simp
  show ?thesis
    unfolding RegExp_def m rx_lex_join_units [OF assms(1)]
    using rx_run_join_units [OF assms(1), of "[]" NoRep ?b ?e] by simp
qed

text \<open>A disjunction matches where one of its alternatives does.\<close>

lemma rx_step_alts:
  "rs \<noteq> [] \<Longrightarrow> (rx_step ic (rx_alts rs) pos \<noteq> []) = (\<exists>r \<in> set rs. rx_step ic r pos \<noteq> [])"
  by (induction rs rule: rx_alts.induct) auto

lemma rx_test_alts:
  "rs \<noteq> [] \<Longrightarrow> rx_test ic (rx_alts rs) s = (\<exists>r \<in> set rs. rx_test ic r s)"
  by (auto simp: rx_test_def list_ex_iff rx_step_alts)

lemma rx_test_positions:
  "rx_test ic r v = (\<exists>i \<le> length v. rx_step ic r (i, drop i v) \<noteq> [])"
proof -
  have "set [0..<Suc (length v)] = {i. i \<le> length v}"
    by (simp only: set_upt) (auto simp only: atLeastLessThan_iff less_Suc_eq_le mem_Collect_eq)
  then show ?thesis
    unfolding rx_test_def list_ex_iff by blast
qed

subsection \<open>Anchors\<close>

text \<open>
  Claim C7, as stated, fails: under the modifier \<open>re\<close> a pattern for a named field gets no
  anchor, and the pattern \<open>a\<close> matches the value \<open>xay\<close>, which the same pattern without
  modifier does not.
\<close>

theorem anchoring_counterexample:
  "processPattern (Some ''cmd'') [''re''] ''a'' = ''(?:a)''
   \<and> exprMatches \<lparr>message = '''', entry_fields = [(''cmd'', ''xay'')]\<rparr> None
        (SearchAtom (Some ''cmd'') [''re''] [''a'']) = Inr True
   \<and> exprMatches \<lparr>message = '''', entry_fields = [(''cmd'', ''xay'')]\<rparr> None
        (SearchAtom (Some ''cmd'') [] [''a'']) = Inr False"
  by code_simp

text \<open>The shape of every source that \<open>processPattern\<close> returns.\<close>

lemma endsWith_snoc: "endsWith (xs @ [c]) [d] = (c = d)"
  by (simp add: endsWith_def)

lemma processPattern_shape:
  "\<exists>body. processPattern field mods pattern
     = (if ''re'' \<notin> set mods \<and> ''base64offset'' \<notin> set mods \<and> \<not> noField field
           \<and> ''contains'' \<notin> set mods \<and> ''endswith'' \<notin> set mods then ''^'' else [])
       @ ''(?:'' @ body @ '')''
       @ (if ''re'' \<notin> set mods \<and> ''base64offset'' \<notin> set mods \<and> \<not> noField field
           \<and> ''contains'' \<notin> set mods \<and> ''startswith'' \<notin> set mods then ''$'' else [])"
proof (cases "''re'' \<in> set mods")
  case True
  then show ?thesis by (simp add: processPattern_def)
next
  case re: False
  show ?thesis
  proof (cases "''base64offset'' \<in> set mods")
    case True
    with re show ?thesis by (simp add: processPattern_def)
  next
    case False
    with re show ?thesis
      unfolding processPattern_def Let_def by (simp only: if_False) simp
  qed
qed

text \<open>What the anchors mean to the engine, and what a pattern without glob characters
  matches: the places where it occurs in the text, up to case.\<close>

lemma concat_map_if: "concat (map (\<lambda>q. if P q then [q] else []) xs) = filter P xs"
  by (induction xs) auto

lemma rx_step_anchored:
  "rx_step ic (anchoredRegex b e p) pos
   = (if b \<and> fst pos \<noteq> 0 then []
      else filter (\<lambda>q. e \<longrightarrow> snd q = []) (rx_step ic (rx_cat (map globRx p)) pos))"
proof -
  have tail: "concat (map (rx_step ic (rx_cat (if e then [Eol] else []))) xs)
              = filter (\<lambda>q. e \<longrightarrow> snd q = []) xs" for xs
    by (cases e) (simp_all add: concat_map_if)
  show ?thesis
    by (cases b) (simp_all add: anchoredRegex_def tail)
qed

lemma rx_step_literal:
  "isLiteral p \<Longrightarrow>
   rx_step True (rx_cat (map globRx p)) (i, t)
   = (if length p \<le> length t \<and> map upperChar (take (length p) t) = map upperChar p
      then [(i + length p, drop (length p) t)] else [])"
proof (induction p arbitrary: i t)
  case Nil
  then show ?case by simp
next
  case (Cons c p)
  then have c: "globRx c = Chr c" and p: "isLiteral p"
    by (simp_all add: isLiteral_def globRx_def)
  show ?case
  proof (cases t)
    case Nil
    then show ?thesis using c by simp
  next
    case (Cons x xs)
    then show ?thesis using c Cons.IH [OF p, of "Suc i" xs]
      by (auto simp: chr_eq_def)
  qed
qed

lemma rx_test_literal:
  assumes "isLiteral p"
  shows "rx_test True (anchoredRegex b e p) v
         = (\<exists>i. occursAt p v i \<and> (b \<longrightarrow> i = 0) \<and> (e \<longrightarrow> i + length p = length v))"
proof -
  have step: "(rx_step True (anchoredRegex b e p) (i, drop i v) \<noteq> [])
              = (occursAt p v i \<and> (b \<longrightarrow> i = 0) \<and> (e \<longrightarrow> i + length p = length v))"
    if "i \<le> length v" for i
    using that unfolding rx_step_anchored rx_step_literal [OF assms] occursAt_def
    by auto
  have "rx_test True (anchoredRegex b e p) v
        = (\<exists>i \<le> length v. rx_step True (anchoredRegex b e p) (i, drop i v) \<noteq> [])"
    by (rule rx_test_positions)
  also have "\<dots> = (\<exists>i \<le> length v. occursAt p v i \<and> (b \<longrightarrow> i = 0) \<and> (e \<longrightarrow> i + length p = length v))"
    using step by blast
  also have "\<dots> = (\<exists>i. occursAt p v i \<and> (b \<longrightarrow> i = 0) \<and> (e \<longrightarrow> i + length p = length v))"
  proof -
    have "i \<le> length v" if "occursAt p v i" for i
      using that unfolding occursAt_def by linarith
    then show ?thesis by blast
  qed
  finally show ?thesis .
qed

lemma validate_relaxing:
  "ps \<noteq> [] \<Longrightarrow> set mods \<subseteq> {''contains'', ''startswith'', ''endswith''} \<Longrightarrow>
   validateModifiers ps i mods pt ex = Inr (pt, ex)"
  by (induction mods arbitrary: i) auto

lemma literal_atom:
  assumes mods: "set mods \<subseteq> {''contains'', ''startswith'', ''endswith''}"
    and lit: "list_all isLiteral ps"
  shows "atomMatches entry opts field mods ps
         = Inr (\<exists>p \<in> set ps. \<exists>i. occursAt p (fieldContent field entry) i
                 \<and> (\<not> noField field \<and> ''contains'' \<notin> set mods \<and> ''endswith'' \<notin> set mods \<longrightarrow> i = 0)
                 \<and> (\<not> noField field \<and> ''contains'' \<notin> set mods \<and> ''startswith'' \<notin> set mods
                      \<longrightarrow> i + length p = length (fieldContent field entry)))"
proof (cases "ps = []")
  case True
  then show ?thesis by (simp add: atomMatches_def validate_def)
next
  case False
  let ?b = "\<not> noField field \<and> ''contains'' \<notin> set mods \<and> ''endswith'' \<notin> set mods"
  let ?e = "\<not> noField field \<and> ''contains'' \<notin> set mods \<and> ''startswith'' \<notin> set mods"
  have no: "''re'' \<notin> set mods" "''base64offset'' \<notin> set mods" "''base64'' \<notin> set mods"
    "''windash'' \<notin> set mods" "''cidr'' \<notin> set mods" "''all'' \<notin> set mods" "''expand'' \<notin> set mods"
    using mods by auto
  have v: "validate mods ps = None"
    using False validate_relaxing [OF False mods, of 0 Glob False] by (simp add: validate_def)
  have c: "compile field mods ps = Inr (rx_test True (rx_alts (map (anchoredRegex ?b ?e) ps)))"
    using RegExp_glob_mode [OF False no(1-4), of field] no(5,6) by (simp add: compile_def)
  have t: "rx_test True (rx_alts (map (anchoredRegex ?b ?e) ps)) s
           = (\<exists>p \<in> set ps. \<exists>i. occursAt p s i \<and> (?b \<longrightarrow> i = 0) \<and> (?e \<longrightarrow> i + length p = length s))" for s
    using False lit by (simp add: rx_test_alts rx_test_literal list_all_iff)
  show ?thesis
    using False v c no(7) unfolding atomMatches_def expandPatterns_def Let_def t [symmetric]
    by simp
qed

text \<open>
  Claim C7, amended. The source of a compiled non-CIDR pattern is a group \<open>(?:...)\<close> with at
  most the anchor \<open>^\<close> before it and the anchor \<open>$\<close> after it. Without the modifiers \<open>re\<close> and
  \<open>base64offset\<close>: a pattern for a named field (a field name that is not empty) has both
  anchors; \<open>contains\<close> removes both, \<open>endswith\<close> removes the anchor at the start,
  \<open>startswith\<close> the anchor at the end; a pattern for the free-text message has none. With
  \<open>re\<close> or \<open>base64offset\<close> there is no anchor at all. In what is matched: with no modifier
  but these three, an atom whose patterns have no glob character matches exactly when one
  of them occurs in the text, up to case, at the start where \<open>^\<close> stands and up to the end
  where \<open>$\<close> stands; so the whole value of a named field, a part of it under \<open>contains\<close>, a
  part of the message.
\<close>

theorem anchoring:
  "startsWith (processPattern field mods pattern) ''^''
     = (''re'' \<notin> set mods \<and> ''base64offset'' \<notin> set mods \<and> \<not> noField field
        \<and> ''contains'' \<notin> set mods \<and> ''endswith'' \<notin> set mods)
   \<and> endsWith (processPattern field mods pattern) ''$''
     = (''re'' \<notin> set mods \<and> ''base64offset'' \<notin> set mods \<and> \<not> noField field
        \<and> ''contains'' \<notin> set mods \<and> ''startswith'' \<notin> set mods)
   \<and> (\<exists>body. processPattern field mods pattern
          = (if startsWith (processPattern field mods pattern) ''^'' then ''^'' else [])
            @ ''(?:'' @ body @ '')''
            @ (if endsWith (processPattern field mods pattern) ''$'' then ''$'' else []))
   \<and> (set mods \<subseteq> {''contains'', ''startswith'', ''endswith''} \<and> list_all isLiteral ps \<longrightarrow>
        exprMatches entry opts (SearchAtom field mods ps)
        = Inr (\<exists>p \<in> set ps. \<exists>i. occursAt p (fieldContent field entry) i
                 \<and> (\<not> noField field \<and> ''contains'' \<notin> set mods \<and> ''endswith'' \<notin> set mods \<longrightarrow> i = 0)
                 \<and> (\<not> noField field \<and> ''contains'' \<notin> set mods \<and> ''startswith'' \<notin> set mods
                      \<longrightarrow> i + length p = length (fieldContent field entry))))"
proof -
  let ?A = "''re'' \<notin> set mods \<and> ''base64offset'' \<notin> set mods \<and> \<not> noField field
        \<and> ''contains'' \<notin> set mods \<and> ''endswith'' \<notin> set mods"
  let ?B = "''re'' \<notin> set mods \<and> ''base64offset'' \<notin> set mods \<and> \<not> noField field
        \<and> ''contains'' \<notin> set mods \<and> ''startswith'' \<notin> set mods"
  obtain body where b: "processPattern field mods pattern
     = (if ?A then ''^'' else []) @ ''(?:'' @ body @ '')'' @ (if ?B then ''$'' else [])"
    using processPattern_shape [of field mods pattern] by blast
  have s: "startsWith (processPattern field mods pattern) ''^'' = ?A"
  proof (cases ?A)
    case True
    then have "processPattern field mods pattern = CHR ''^'' # ''(?:'' @ body @ '')'' @ (if ?B then ''$'' else [])"
      using b by simp
    with True show ?thesis by (simp add: startsWith_def)
  next
    case False
    then have "processPattern field mods pattern = CHR ''('' # ''?:'' @ body @ '')'' @ (if ?B then ''$'' else [])"
      using b by auto
    with False show ?thesis by (simp add: startsWith_def)
  qed
  have e: "endsWith (processPattern field mods pattern) ''$'' = ?B"
  proof (cases ?B)
    case True
    then have "\<exists>pre. processPattern field mods pattern = pre @ [CHR ''$'']"
      using b by (intro exI [of _ "(if ?A then ''^'' else []) @ ''(?:'' @ body @ '')''"]) simp
    then obtain pre where p: "processPattern field mods pattern = pre @ [CHR ''$'']" ..
    show ?thesis unfolding p using True by (simp add: endsWith_snoc)
  next
    case False
    then have "\<exists>pre. processPattern field mods pattern = pre @ [CHR '')'']"
      using b by (intro exI [of _ "(if ?A then ''^'' else []) @ ''(?:'' @ body"]) auto
    then obtain pre where p: "processPattern field mods pattern = pre @ [CHR '')'']" ..
    show ?thesis unfolding p using False by (simp add: endsWith_snoc)
  qed
  have sh: "\<exists>body. processPattern field mods pattern
          = (if startsWith (processPattern field mods pattern) ''^'' then ''^'' else [])
            @ ''(?:'' @ body @ '')''
            @ (if endsWith (processPattern field mods pattern) ''$'' then ''$'' else [])"
    unfolding s e using b by blast
  have m: "set mods \<subseteq> {''contains'', ''startswith'', ''endswith''} \<and> list_all isLiteral ps \<longrightarrow>
        exprMatches entry opts (SearchAtom field mods ps)
        = Inr (\<exists>p \<in> set ps. \<exists>i. occursAt p (fieldContent field entry) i
                 \<and> (\<not> noField field \<and> ''contains'' \<notin> set mods \<and> ''endswith'' \<notin> set mods \<longrightarrow> i = 0)
                 \<and> (\<not> noField field \<and> ''contains'' \<notin> set mods \<and> ''startswith'' \<notin> set mods
                      \<longrightarrow> i + length p = length (fieldContent field entry)))"
    using literal_atom [of mods ps entry opts field] by simp
  show ?thesis
    using s e sh m by blast
qed

text \<open>The field \<open>Image\<close> with \<open>startswith\<close> and the pattern \<open>cmd\<close>: the anchor at the start
  only; the value \<open>CMD.exe\<close> matches, the value \<open>xcmd\<close> does not.\<close>

theorem anchoring_witness:
  "set [''startswith''] \<subseteq> {''contains'', ''startswith'', ''endswith''} \<and> list_all isLiteral [''cmd'']
   \<and> processPattern (Some ''Image'') [''startswith''] ''cmd'' = ''^(?:cmd)''
   \<and> startsWith (processPattern (Some ''Image'') [''startswith''] ''cmd'') ''^''
   \<and> \<not> endsWith (processPattern (Some ''Image'') [''startswith''] ''cmd'') ''$''
   \<and> occursAt ''cmd'' ''CMD.exe'' 0
   \<and> exprMatches \<lparr>message = [], entry_fields = [(''Image'', ''CMD.exe'')]\<rparr> None
        (SearchAtom (Some ''Image'') [''startswith''] [''cmd'']) = Inr True
   \<and> exprMatches \<lparr>message = [], entry_fields = [(''Image'', ''xcmd'')]\<rparr> None
        (SearchAtom (Some ''Image'') [''startswith''] [''cmd'']) = Inr False"
proof -
  have h: "set [''startswith''] \<subseteq> {''contains'', ''startswith'', ''endswith''} \<and> list_all isLiteral [''cmd'']"
    by (simp add: isLiteral_def)
  have c: "processPattern (Some ''Image'') [''startswith''] ''cmd'' = ''^(?:cmd)''
           \<and> fieldContent (Some ''Image'') \<lparr>message = [], entry_fields = [(''Image'', ''CMD.exe'')]\<rparr> = ''CMD.exe''
           \<and> exprMatches \<lparr>message = [], entry_fields = [(''Image'', ''CMD.exe'')]\<rparr> None
                (SearchAtom (Some ''Image'') [''startswith''] [''cmd'']) = Inr True
           \<and> exprMatches \<lparr>message = [], entry_fields = [(''Image'', ''xcmd'')]\<rparr> None
                (SearchAtom (Some ''Image'') [''startswith''] [''cmd'']) = Inr False"
    by code_simp
  from anchoring [of "Some ''Image''" "[''startswith'']" "''cmd''" "[''cmd'']"
      "\<lparr>message = [], entry_fields = [(''Image'', ''CMD.exe'')]\<rparr>" None] h c
  show ?thesis by (simp add: noField_def)
qed

subsection \<open>CIDR patterns\<close>

text \<open>The two address families do not overlap: an IPv4 text has no colon, an IPv6 text has
  one.\<close>

lemma splitOn_length: "length (splitOn P s) = Suc (length (filter P s))"
  by (induction s) (auto split: list.splits)

lemma splitOn_parts: "p \<in> set (splitOn P s) \<Longrightarrow> set p \<subseteq> set s"
proof (induction s arbitrary: p)
  case Nil
  then show ?case by simp
next
  case (Cons a s)
  obtain q qs where q: "splitOn P s = q # qs"
    using splitOn_length [of P s] by (cases "splitOn P s") auto
  have "set q \<subseteq> set s" "\<And>r. r \<in> set qs \<Longrightarrow> set r \<subseteq> set s"
    using Cons.IH q by auto
  with Cons.prems q show ?case
    by (auto split: if_splits)
qed

lemma splitOn_chars: "x \<in> set s \<Longrightarrow> P x \<or> (\<exists>p \<in> set (splitOn P s). x \<in> set p)"
  by (induction s) (auto split: list.splits)

lemma splitElision_colon: "splitElision t = Some lr \<Longrightarrow> CHR '':'' \<in> set t"
  by (induction t arbitrary: lr rule: splitElision.induct) (auto split: if_splits)

lemma colon_not_digit: "\<not> isDigit (CHR '':'')"
  by (simp add: isDigit_def)

lemma splitPrefix_text:
  "splitPrefix bits s = Some (t, m) \<Longrightarrow> set t \<subseteq> set s"
  using splitOn_parts [of t "\<lambda>c. c = CHR ''/''" s]
  by (auto simp: splitPrefix_def split: list.splits if_splits)

lemma Address6_colon:
  assumes "Address6 s = Some a"
  shows "CHR '':'' \<in> set s"
proof -
  obtain t m where sp: "splitPrefix 128 s = Some (t, m)"
    using assms by (cases "splitPrefix 128 s") (auto simp: Address6_def)
  have "CHR '':'' \<in> set t"
  proof (cases "splitElision t")
    case None
    have "length (splitOn (\<lambda>c. c = CHR '':'') t) = 8"
    proof (rule ccontr)
      assume "length (splitOn (\<lambda>c. c = CHR '':'') t) \<noteq> 8"
      then have "Address6 s = None" by (simp add: Address6_def sp None)
      with assms show False by simp
    qed
    then have "filter (\<lambda>c. c = CHR '':'') t \<noteq> []"
      by (auto simp: splitOn_length)
    then obtain x where "x \<in> set (filter (\<lambda>c. c = CHR '':'') t)"
      by (cases "filter (\<lambda>c. c = CHR '':'') t") auto
    then show ?thesis by auto
  next
    case (Some lr)
    then show ?thesis by (rule splitElision_colon)
  qed
  with splitPrefix_text [OF sp] show ?thesis by auto
qed

lemma octet_digits: "octet p = Some n \<Longrightarrow> x \<in> set p \<Longrightarrow> isDigit x"
  by (auto simp: octet_def list_ex_iff split: if_splits)

lemma Address4_no_colon:
  assumes "Address4 s = Some a"
  shows "CHR '':'' \<notin> set s"
proof
  assume c: "CHR '':'' \<in> set s"
  from assms obtain t m where sp: "splitPrefix 32 s = Some (t, m)"
    by (auto simp: Address4_def split: option.splits)
  from assms sp have "\<not> list_ex (\<lambda>x. x = None) (map octet (splitOn (\<lambda>c. c = CHR ''.'') t))"
    by (auto simp: Address4_def Let_def split: if_splits)
  then have oct: "\<forall>p \<in> set (splitOn (\<lambda>c. c = CHR ''.'') t). octet p \<noteq> None"
    unfolding list_ex_iff by force
  have t: "CHR '':'' \<notin> set t"
  proof
    assume "CHR '':'' \<in> set t"
    from splitOn_chars [OF this, of "\<lambda>c. c = CHR ''.''"]
    obtain p where "p \<in> set (splitOn (\<lambda>c. c = CHR ''.'') t)" "CHR '':'' \<in> set p" by auto
    with oct octet_digits colon_not_digit show False by blast
  qed
  from splitOn_chars [OF c, of "\<lambda>c. c = CHR ''/''"]
  obtain p where p: "p \<in> set (splitOn (\<lambda>c. c = CHR ''/'') s)" "CHR '':'' \<in> set p" by auto
  from sp p t colon_not_digit show False
    by (auto simp: splitPrefix_def list_ex_iff split: list.splits if_splits)
qed

lemma address_families_disjoint: "Address4 s = Some a \<Longrightarrow> Address6 s = None"
  using Address4_no_colon [of s] Address6_colon [of s] by (cases "Address6 s") blast+

lemma cidrMatchers_v4:
  "list_ex (\<lambda>c. case c of Inl c4 \<Rightarrow> Q c4 | Inr c6 \<Rightarrow> False) (cidrMatchers pats)
   = (\<exists>p \<in> set pats. \<exists>c. Address4 p = Some c \<and> Q c)"
  by (induction pats) (auto simp: cidrMatchers_def split: option.splits)

lemma cidrMatchers_v6:
  "list_ex (\<lambda>c. case c of Inl c4 \<Rightarrow> False | Inr c6 \<Rightarrow> Q c6) (cidrMatchers pats)
   = (\<exists>p \<in> set pats. \<exists>c. Address6 p = Some c \<and> Q c)"
  by (induction pats) (auto simp: cidrMatchers_def address_families_disjoint split: option.splits)

text \<open>
  Claim C8. Under the modifier \<open>cidr\<close> compilation throws nothing, and the compiled matcher
  accepts a candidate exactly when the candidate parses as an IPv4 address that lies in a
  pattern that parses as an IPv4 network, or parses as an IPv6 address that lies in a
  pattern that parses as an IPv6 network. A candidate that parses in neither family, or a
  list with no network of its family, gives no match.
\<close>

theorem cidr_containment:
  assumes "''cidr'' \<in> set mods"
  shows "\<exists>matches. compile field mods pats = Inr matches
         \<and> (\<forall>s. matches s
               = ((\<exists>a. Address4 s = Some a
                     \<and> (\<exists>p \<in> set pats. \<exists>c. Address4 p = Some c \<and> isInSubnet 32 a c))
                  \<or> (\<exists>a. Address6 s = Some a
                     \<and> (\<exists>p \<in> set pats. \<exists>c. Address6 p = Some c \<and> isInSubnet 128 a c))))"
proof -
  have "cidrMatches (cidrMatchers pats) s
        = ((\<exists>a. Address4 s = Some a
              \<and> (\<exists>p \<in> set pats. \<exists>c. Address4 p = Some c \<and> isInSubnet 32 a c))
           \<or> (\<exists>a. Address6 s = Some a
              \<and> (\<exists>p \<in> set pats. \<exists>c. Address6 p = Some c \<and> isInSubnet 128 a c)))" for s
  proof (cases "Address4 s")
    case None
    then show ?thesis
      by (cases "Address6 s") (simp_all add: cidrMatches_def cidrMatchers_v6)
  next
    case (Some a)
    then show ?thesis
      by (simp add: cidrMatches_def cidrMatchers_v4 address_families_disjoint)
  qed
  then show ?thesis
    using assms by (simp add: compile_def)
qed

text \<open>The examples of the claim: \<open>10.1.2.3\<close> lies in \<open>10.0.0.0/8\<close>, \<open>11.1.2.3\<close> does not, an
  IPv6 candidate never matches the IPv4 list, nor an IPv4 candidate an IPv6 list.\<close>

theorem cidr_containment_witness:
  "''cidr'' \<in> set [''cidr'']
   \<and> (\<exists>matches. compile (Some ''DestinationIp'') [''cidr''] [''10.0.0.0/8''] = Inr matches
         \<and> matches ''10.1.2.3'' \<and> \<not> matches ''11.1.2.3'' \<and> \<not> matches ''::1''
         \<and> \<not> matches ''not an address'')
   \<and> exprMatches \<lparr>message = [], entry_fields = [(''DestinationIp'', ''10.1.2.3'')]\<rparr> None
         (SearchAtom (Some ''DestinationIp'') [''cidr''] [''10.0.0.0/8'']) = Inr True
   \<and> exprMatches \<lparr>message = [], entry_fields = [(''DestinationIp'', ''11.1.2.3'')]\<rparr> None
         (SearchAtom (Some ''DestinationIp'') [''cidr''] [''10.0.0.0/8'']) = Inr False
   \<and> exprMatches \<lparr>message = [], entry_fields = [(''DestinationIp'', ''::1'')]\<rparr> None
         (SearchAtom (Some ''DestinationIp'') [''cidr''] [''10.0.0.0/8'']) = Inr False
   \<and> exprMatches \<lparr>message = [], entry_fields = [(''DestinationIp'', ''10.1.2.3'')]\<rparr> None
         (SearchAtom (Some ''DestinationIp'') [''cidr''] [''fe80::/10'']) = Inr False"
proof -
  have n: "Address4 ''10.0.0.0/8'' = Some (167772160, 8)" by code_simp
  have a1: "Address4 ''10.1.2.3'' = Some (167838211, 32)" by code_simp
  have a2: "Address4 ''11.1.2.3'' = Some (184615427, 32)" by code_simp
  have a3: "Address4 ''::1'' = None" by code_simp
  have a4: "Address6 ''::1'' = Some (1, 128)" by code_simp
  have a5: "Address4 ''not an address'' = None" by code_simp
  have a6: "Address6 ''not an address'' = None" by code_simp
  have a7: "Address6 ''10.0.0.0/8'' = None" using n by (rule address_families_disjoint)
  from cidr_containment [of "[''cidr'']" "Some ''DestinationIp''" "[''10.0.0.0/8'']"]
  obtain matches where m: "compile (Some ''DestinationIp'') [''cidr''] [''10.0.0.0/8''] = Inr matches"
    and ms: "\<And>s. matches s
               = ((\<exists>a. Address4 s = Some a
                     \<and> (\<exists>p \<in> set [''10.0.0.0/8'']. \<exists>c. Address4 p = Some c \<and> isInSubnet 32 a c))
                  \<or> (\<exists>a. Address6 s = Some a
                     \<and> (\<exists>p \<in> set [''10.0.0.0/8'']. \<exists>c. Address6 p = Some c \<and> isInSubnet 128 a c)))"
    by auto
  have e1: "matches ''10.1.2.3''"
    unfolding ms by (simp add: n a1 a7 address_families_disjoint [OF a1] isInSubnet_def)
  have e2: "\<not> matches ''11.1.2.3''"
    unfolding ms by (simp add: n a2 a7 address_families_disjoint [OF a2] isInSubnet_def)
  have e3: "\<not> matches ''::1''"
    unfolding ms by (simp add: n a3 a4 a7)
  have e4: "\<not> matches ''not an address''"
    unfolding ms by (simp add: a5 a6)
  have x: "exprMatches \<lparr>message = [], entry_fields = [(''DestinationIp'', ''10.1.2.3'')]\<rparr> None
         (SearchAtom (Some ''DestinationIp'') [''cidr''] [''10.0.0.0/8'']) = Inr True
   \<and> exprMatches \<lparr>message = [], entry_fields = [(''DestinationIp'', ''11.1.2.3'')]\<rparr> None
         (SearchAtom (Some ''DestinationIp'') [''cidr''] [''10.0.0.0/8'']) = Inr False
   \<and> exprMatches \<lparr>message = [], entry_fields = [(''DestinationIp'', ''::1'')]\<rparr> None
         (SearchAtom (Some ''DestinationIp'') [''cidr''] [''10.0.0.0/8'']) = Inr False
   \<and> exprMatches \<lparr>message = [], entry_fields = [(''DestinationIp'', ''10.1.2.3'')]\<rparr> None
         (SearchAtom (Some ''DestinationIp'') [''cidr''] [''fe80::/10'']) = Inr False"
    by code_simp
  from m e1 e2 e3 e4 x show ?thesis by auto
qed

subsection \<open>The collapse of keyword lists\<close>

text \<open>A fieldless atom without modifiers: it matches where one of its patterns, as a glob,
  matches somewhere in the message.\<close>

lemma atomMatches_plain:
  assumes "noField field"
  shows "atomMatches entry opts field [] ps = Inr (\<exists>p \<in> set ps. globMatch p (message entry))"
proof (cases "ps = []")
  case True
  then show ?thesis by (simp add: atomMatches_def validate_def)
next
  case False
  have v: "validate [] ps = None" using False by (simp add: validate_def)
  have g: "anchoredRegex False False = globRegex"
    by (rule ext) (simp add: anchoredRegex_def globRegex_def)
  have c: "compile field [] ps = Inr (rx_test True (rx_alts (map globRegex ps)))"
    using RegExp_glob_mode [OF False, of "[]" field] assms by (simp add: compile_def g)
  have f: "fieldContent field entry = message entry"
    using assms by (simp add: fieldContent_def)
  show ?thesis
    using False v c f
    by (simp add: atomMatches_def expandPatterns_def rx_test_alts globMatch_def)
qed

lemma orMatches_plain:
  "list_all isPlainAtom atoms \<Longrightarrow>
   orMatches entry opts atoms
   = Inr (\<exists>a \<in> set atoms. \<exists>p \<in> set (atomPatterns a). globMatch p (message entry))"
proof (induction atoms)
  case Nil
  then show ?case by simp
next
  case (Cons a atoms)
  from Cons.prems obtain field ps where a: "a = SearchAtom field [] ps" "noField field"
    by (cases a) auto
  show ?case
    using Cons a by (simp add: atomMatches_plain)
qed

text \<open>
  Claim C9. For every list of fieldless, unmodified \<open>SearchAtom\<close>s (the test of
  \<open>parseDetection\<close> before it merges), the one atom with their concatenated patterns
  evaluates on every log entry, with any placeholder options, to what the \<open>OrExpr\<close> over
  the atoms evaluates to; neither throws.
\<close>

theorem keywords_collapse:
  assumes "list_all isPlainAtom atoms"
  shows "exprMatches entry opts (SearchAtom None [] (concat (map atomPatterns atoms)))
         = exprMatches entry opts (OrExpr atoms)
       \<and> (\<exists>b. exprMatches entry opts (OrExpr atoms) = Inr b)"
proof -
  have n: "noField None" by (simp add: noField_def)
  show ?thesis
    using orMatches_plain [OF assms, of entry opts] atomMatches_plain [OF n, of entry opts]
    by auto
qed

text \<open>The keywords \<open>foo\<close> and \<open>bar\<close> on the message \<open>Hello foo\<close>.\<close>

theorem keywords_collapse_witness:
  "list_all isPlainAtom [SearchAtom None [] [''foo''], SearchAtom None [] [''bar'']]
   \<and> exprMatches \<lparr>message = ''Hello foo'', entry_fields = []\<rparr> None (SearchAtom None [] [''foo'', ''bar''])
       = exprMatches \<lparr>message = ''Hello foo'', entry_fields = []\<rparr> None
           (OrExpr [SearchAtom None [] [''foo''], SearchAtom None [] [''bar'']])
   \<and> exprMatches \<lparr>message = ''Hello foo'', entry_fields = []\<rparr> None (SearchAtom None [] [''foo'', ''bar''])
       = Inr True"
proof -
  have p: "list_all isPlainAtom [SearchAtom None [] [''foo''], SearchAtom None [] [''bar'']]"
    by (simp add: noField_def)
  have e: "exprMatches \<lparr>message = ''Hello foo'', entry_fields = []\<rparr> None (SearchAtom None [] [''foo'', ''bar''])
           = Inr True"
    by code_simp
  from keywords_collapse [OF p, of "\<lparr>message = ''Hello foo'', entry_fields = []\<rparr>" None] p e
  show ?thesis by simp
qed

end
